theory Spec2Isabelle
  imports Main "HOL-Library.Sublist" "HOL-Library.AList" "HOL-Library.Char_ord"
    "HOL-Library.List_Lexorder" "HOL-Library.Product_Lexorder"
begin

section \<open>Python text primitives used by adp_extractor.py\<close>

text \<open>
  A Python \<open>str\<close> is modelled as a \<open>string\<close>, one \<open>char\<close> per code point, for
  code points below 256.  The character classes below are Python's on that range:
  \<open>str.isspace\<close> (also the class of \<open>str.split()\<close>, \<open>str.strip()\<close> and of \<open>\s\<close> in
  \<open>re\<close>), the decimal digits of \<open>\d\<close>, \<open>str.isdigit\<close> (which also accepts the three
  superscript digits), the letters of \<open>[A-Za-z]\<close>, and \<open>str.lower\<close>.
\<close>

definition py_isspace :: "char \<Rightarrow> bool" where
  "py_isspace c \<longleftrightarrow> c \<in> set [CHR 0x09, CHR 0x0A, CHR 0x0B, CHR 0x0C, CHR 0x0D,
     CHR 0x1C, CHR 0x1D, CHR 0x1E, CHR 0x1F, CHR 0x20, CHR 0x85, CHR 0xA0]"

definition re_digit :: "char \<Rightarrow> bool" where
  "re_digit c \<longleftrightarrow> c \<in> set ''0123456789''"

definition py_isdigit_char :: "char \<Rightarrow> bool" where
  "py_isdigit_char c \<longleftrightarrow> re_digit c \<or> c \<in> set [CHR 0xB2, CHR 0xB3, CHR 0xB9]"

definition py_isdigit :: "string \<Rightarrow> bool" where
  "py_isdigit s \<longleftrightarrow> s \<noteq> [] \<and> list_all py_isdigit_char s"

definition re_alpha :: "char \<Rightarrow> bool" where
  "re_alpha c \<longleftrightarrow> c \<in> set ''ABCDEFGHIJKLMNOPQRSTUVWXYZabcdefghijklmnopqrstuvwxyz''"

definition upper_chars :: string where
  "upper_chars = ''ABCDEFGHIJKLMNOPQRSTUVWXYZ'' @
     [CHR 0xC0, CHR 0xC1, CHR 0xC2, CHR 0xC3, CHR 0xC4, CHR 0xC5, CHR 0xC6, CHR 0xC7,
      CHR 0xC8, CHR 0xC9, CHR 0xCA, CHR 0xCB, CHR 0xCC, CHR 0xCD, CHR 0xCE, CHR 0xCF,
      CHR 0xD0, CHR 0xD1, CHR 0xD2, CHR 0xD3, CHR 0xD4, CHR 0xD5, CHR 0xD6,
      CHR 0xD8, CHR 0xD9, CHR 0xDA, CHR 0xDB, CHR 0xDC, CHR 0xDD, CHR 0xDE]"

definition lower_chars :: string where
  "lower_chars = ''abcdefghijklmnopqrstuvwxyz'' @
     [CHR 0xE0, CHR 0xE1, CHR 0xE2, CHR 0xE3, CHR 0xE4, CHR 0xE5, CHR 0xE6, CHR 0xE7,
      CHR 0xE8, CHR 0xE9, CHR 0xEA, CHR 0xEB, CHR 0xEC, CHR 0xED, CHR 0xEE, CHR 0xEF,
      CHR 0xF0, CHR 0xF1, CHR 0xF2, CHR 0xF3, CHR 0xF4, CHR 0xF5, CHR 0xF6,
      CHR 0xF8, CHR 0xF9, CHR 0xFA, CHR 0xFB, CHR 0xFC, CHR 0xFD, CHR 0xFE]"

definition py_lower_char :: "char \<Rightarrow> char" where
  "py_lower_char c = (case map_of (zip upper_chars lower_chars) c of Some l \<Rightarrow> l | None \<Rightarrow> c)"

definition py_lower :: "string \<Rightarrow> string" where
  "py_lower s = map py_lower_char s"

text \<open>\<open>s.strip()\<close>.\<close>

definition py_strip :: "string \<Rightarrow> string" where
  "py_strip s = rev (dropWhile py_isspace (rev (dropWhile py_isspace s)))"

text \<open>\<open>s.rstrip('\n')\<close>.\<close>

definition py_rstrip_nl :: "string \<Rightarrow> string" where
  "py_rstrip_nl s = rev (dropWhile (\<lambda>c. c = CHR 0x0A) (rev s))"

text \<open>\<open>s.replace(c, '')\<close> for a one-character \<open>c\<close>.\<close>

definition py_remove :: "char \<Rightarrow> string \<Rightarrow> string" where
  "py_remove c s = filter (\<lambda>x. x \<noteq> c) s"

text \<open>\<open>s.split()\<close>: the maximal runs of non-whitespace characters.\<close>

function py_split_ws :: "string \<Rightarrow> string list" where
  "py_split_ws [] = []"
| "py_split_ws (c # cs) =
     (if py_isspace c then py_split_ws cs
      else (c # takeWhile (\<lambda>x. \<not> py_isspace x) cs)
             # py_split_ws (dropWhile (\<lambda>x. \<not> py_isspace x) cs))"
  by pat_completeness auto
termination
  by (relation "measure length") (auto simp: length_dropWhile_le le_imp_less_Suc)

text \<open>\<open>s.split(c)\<close> for a one-character separator: one more piece than separators.\<close>

fun py_split_char :: "char \<Rightarrow> string \<Rightarrow> string list" where
  "py_split_char sep [] = [[]]"
| "py_split_char sep (c # cs) =
     (if c = sep then [] # py_split_char sep cs
      else (case py_split_char sep cs of
              [] \<Rightarrow> [[c]]
            | p # ps \<Rightarrow> (c # p) # ps))"

text \<open>\<open>' '.join(ts)\<close>.\<close>

fun py_join :: "string list \<Rightarrow> string" where
  "py_join [] = []"
| "py_join [t] = t"
| "py_join (t # u # ts) = t @ CHR '' '' # py_join (u # ts)"

text \<open>\<open>sub in s\<close> and \<open>s.find(sub)\<close> (\<open>None\<close> for Python's \<open>-1\<close>).\<close>

fun py_in :: "string \<Rightarrow> string \<Rightarrow> bool" where
  "py_in sub [] = (sub = [])"
| "py_in sub (c # cs) = (prefix sub (c # cs) \<or> py_in sub cs)"

fun py_find :: "string \<Rightarrow> string \<Rightarrow> nat option" where
  "py_find sub [] = (if sub = [] then Some 0 else None)"
| "py_find sub (c # cs) =
     (if prefix sub (c # cs) then Some 0 else map_option Suc (py_find sub cs))"

text \<open>
  \<open>s.split(sep, 1)[1]\<close> where \<open>sep in s\<close>: the text after the first occurrence of
  \<open>sep\<close>.  Python raises \<open>ValueError\<close> for an empty separator; callers that can pass one
  model that branch themselves.
\<close>

definition py_after :: "string \<Rightarrow> string \<Rightarrow> string" where
  "py_after sep s = (case py_find sep s of None \<Rightarrow> [] | Some p \<Rightarrow> drop (p + length sep) s)"

text \<open>The slice \<open>s[i:j]\<close> for \<open>0 \<le> i \<le> j\<close>.\<close>

definition py_slice :: "nat \<Rightarrow> nat \<Rightarrow> 'a list \<Rightarrow> 'a list" where
  "py_slice i j s = take (j - i) (drop i s)"

datatype py_error = ValueError

section \<open>The regular expressions of the source\<close>

text \<open>
  The patterns handed to \<open>re.match\<close> are sequences of bounded repetitions of one
  character class, closed by \<open>$\<close> or left open.  \<open>re_match\<close> is \<open>re.match\<close> read as a
  truth value: some way of choosing the repetition counts matches a prefix of the text.
  \<open>$\<close> holds at the end of the text and just before a final newline.
\<close>

datatype cls = Digit | Space | Lit char

datatype item = Rep cls nat "nat option" | Eos

primrec cls_ok :: "cls \<Rightarrow> char \<Rightarrow> bool" where
  "cls_ok Digit c = re_digit c"
| "cls_ok Space c = py_isspace c"
| "cls_ok (Lit x) c = (c = x)"

primrec re_match :: "item list \<Rightarrow> string \<Rightarrow> bool" where
  "re_match [] = (\<lambda>s. True)"
| "re_match (i # r) = (\<lambda>s.
     case i of
       Eos \<Rightarrow> (s = [] \<or> s = [CHR 0x0A]) \<and> re_match r s
     | Rep c lo hi \<Rightarrow>
         list_ex (\<lambda>k. list_all (cls_ok c) (take k s) \<and> re_match r (drop k s))
           [lo ..< Suc (case hi of None \<Rightarrow> length s | Some h \<Rightarrow> min h (length s))])"

text \<open>\<open>-?\d{1,4}\s\d{3}\s\d{3}\s\d{2}\*?$\<close>\<close>

definition re_amount4 :: "item list" where
  "re_amount4 = [Rep (Lit CHR ''-'') 0 (Some 1), Rep Digit 1 (Some 4), Rep Space 1 (Some 1),
     Rep Digit 3 (Some 3), Rep Space 1 (Some 1), Rep Digit 3 (Some 3), Rep Space 1 (Some 1),
     Rep Digit 2 (Some 2), Rep (Lit CHR ''*'') 0 (Some 1), Eos]"

text \<open>\<open>-?\d{1,4}\s\d{3}\s\d{2}\*?$\<close>\<close>

definition re_amount3 :: "item list" where
  "re_amount3 = [Rep (Lit CHR ''-'') 0 (Some 1), Rep Digit 1 (Some 4), Rep Space 1 (Some 1),
     Rep Digit 3 (Some 3), Rep Space 1 (Some 1),
     Rep Digit 2 (Some 2), Rep (Lit CHR ''*'') 0 (Some 1), Eos]"

text \<open>\<open>-?\d{1,4}\s\d{2}\*?$\<close>\<close>

definition re_amount2 :: "item list" where
  "re_amount2 = [Rep (Lit CHR ''-'') 0 (Some 1), Rep Digit 1 (Some 4), Rep Space 1 (Some 1),
     Rep Digit 2 (Some 2), Rep (Lit CHR ''*'') 0 (Some 1), Eos]"

text \<open>\<open>-?\d{2}\*?$\<close>\<close>

definition re_amount1 :: "item list" where
  "re_amount1 = [Rep (Lit CHR ''-'') 0 (Some 1),
     Rep Digit 2 (Some 2), Rep (Lit CHR ''*'') 0 (Some 1), Eos]"

text \<open>\<open>\s+\d+/\<close> and \<open>\s+\d+\s+\d+\<close>, the two probes after an \<open>Espp\<close> label.\<close>

definition re_espp_date :: "item list" where
  "re_espp_date = [Rep Space 1 None, Rep Digit 1 None, Rep (Lit CHR ''/'') 1 (Some 1)]"

definition re_espp_amount :: "item list" where
  "re_espp_amount = [Rep Space 1 None, Rep Digit 1 None, Rep Space 1 None, Rep Digit 1 None]"

section \<open>Amounts\<close>

text \<open>\<open>clean_amount\<close> (lines 62-89).\<close>

definition clean_amount :: "string \<Rightarrow> string" where
  "clean_amount amount_str =
     (let cleaned = py_strip (py_remove CHR ''*'' (py_remove CHR '','' (py_remove CHR '' '' amount_str)));
          cleaned = py_rstrip_nl cleaned
      in if cleaned = [] then []
         else
           let is_negative = prefix ''-'' cleaned;
               cleaned = (if is_negative then drop 1 cleaned else cleaned);
               cleaned = (if cleaned \<noteq> [] \<and> length cleaned \<ge> 2 \<and> py_isdigit cleaned
                          then take (length cleaned - 2) cleaned @ ''.'' @ drop (length cleaned - 2) cleaned
                          else cleaned)
           in if is_negative then CHR ''-'' # cleaned else cleaned)"

text \<open>
  The cascade of shapes that the source writes out three times (lines 156-178 in
  \<open>try_extract_at\<close>, 189-218 in the first-amount loop, 340-373 in the earnings loop):
  at token index \<open>idx < len(tokens)\<close>, four tokens, then three, then two, then one.
  The result is the cleaned amount and the number of tokens it spans.
\<close>

definition potential :: "string list \<Rightarrow> nat \<Rightarrow> nat \<Rightarrow> string" where
  "potential tokens idx k = py_join (py_slice idx (idx + k) tokens)"

definition amount_at :: "string list \<Rightarrow> nat \<Rightarrow> (string \<times> nat) option" where
  "amount_at tokens idx =
     (if idx + 3 < length tokens \<and> re_match re_amount4 (potential tokens idx 4)
        then Some (clean_amount (potential tokens idx 4), 4)
      else if idx + 2 < length tokens \<and> re_match re_amount3 (potential tokens idx 3)
        then Some (clean_amount (potential tokens idx 3), 3)
      else if idx + 1 < length tokens \<and> re_match re_amount2 (potential tokens idx 2)
        then Some (clean_amount (potential tokens idx 2), 2)
      else if re_match re_amount1 (tokens ! idx)
        then Some (clean_amount (tokens ! idx), 1)
      else None)"

text \<open>The remainder of a line after a description (lines 99-102 and 141-144).\<close>

definition remainder_after :: "string \<Rightarrow> string \<Rightarrow> string" where
  "remainder_after line description =
     (if description \<noteq> [] \<and> py_in description line
      then py_strip (py_after description line)
      else py_strip line)"

text \<open>
  \<open>extract_first_amount_from_line\<close> (lines 92-129): three tokens, then two, then one,
  at the head of the remainder only.
\<close>

definition extract_first_amount_from_line :: "string \<Rightarrow> string \<Rightarrow> string option" where
  "extract_first_amount_from_line line description =
     (let tokens = py_split_ws (remainder_after line description)
      in if tokens = [] then None
         else if length tokens \<ge> 3 \<and> re_match re_amount3 (py_join (take 3 tokens))
           then Some (clean_amount (py_join (take 3 tokens)))
         else if length tokens \<ge> 2 \<and> re_match re_amount2 (py_join (take 2 tokens))
           then Some (clean_amount (py_join (take 2 tokens)))
         else if length tokens \<ge> 1 \<and> re_match re_amount1 (tokens ! 0)
           then Some (clean_amount (tokens ! 0))
         else None)"

text \<open>\<open>try_extract_at\<close> (lines 152-180), the nested helper of \<open>extract_amounts_from_line\<close>.\<close>

definition try_extract_at :: "string list \<Rightarrow> nat \<Rightarrow> string option" where
  "try_extract_at tokens start_idx =
     (if start_idx \<ge> length tokens then None
      else map_option fst (amount_at tokens start_idx))"

text \<open>
  The \<open>while idx < len(tokens)\<close> loop of lines 188-220: the first index at which a shape
  matches, with the amount and \<open>this_period_end_idx\<close>.
\<close>

function first_amount :: "string list \<Rightarrow> nat \<Rightarrow> (string \<times> nat) option" where
  "first_amount tokens idx =
     (if idx < length tokens then
        (case amount_at tokens idx of
           Some (a, k) \<Rightarrow> Some (a, idx + k)
         | None \<Rightarrow> first_amount tokens (idx + 1))
      else None)"
  by pat_completeness auto
termination
  by (relation "measure (\<lambda>(tokens, idx). length tokens - idx)") auto

declare first_amount.simps [simp del]

text \<open>\<open>extract_amounts_from_line\<close> (lines 132-227).\<close>

definition extract_amounts_from_line :: "string \<Rightarrow> string \<Rightarrow> string option \<times> string option" where
  "extract_amounts_from_line line description =
     (let tokens = py_split_ws (remainder_after line description)
      in if tokens = [] then (None, None)
         else (case first_amount tokens 0 of
                 None \<Rightarrow> (None, None)
               | Some (this_period, this_period_end_idx) \<Rightarrow>
                   (Some this_period, try_extract_at tokens this_period_end_idx)))"

text \<open>
  The four shapes by token count, and what it means for the shape of \<open>k\<close> tokens to fit
  at token index \<open>idx\<close>; used to state which shape the cascade commits to.
\<close>

definition shape :: "nat \<Rightarrow> item list" where
  "shape k = (if k = 4 then re_amount4 else if k = 3 then re_amount3
              else if k = 2 then re_amount2 else re_amount1)"

definition shape_fits :: "string list \<Rightarrow> nat \<Rightarrow> nat \<Rightarrow> bool" where
  "shape_fits tokens idx k \<longleftrightarrow>
     1 \<le> k \<and> k \<le> 4 \<and> idx + k \<le> length tokens \<and> re_match (shape k) (potential tokens idx k)"

section \<open>Records\<close>

text \<open>
  A \<open>Dict[str, str]\<close> is an association list in insertion order: \<open>d[k] = v\<close> is
  \<open>AList.update k v d\<close> (the value is replaced in place, a new key goes to the end),
  \<open>d.get(k)\<close> is \<open>map_of d k\<close>.
\<close>

type_synonym pydict = "(string \<times> string) list"

definition has_key :: "pydict \<Rightarrow> string \<Rightarrow> bool" where
  "has_key d k \<longleftrightarrow> map_of d k \<noteq> None"

text \<open>Truth value of an \<open>Optional[str]\<close>: neither \<open>None\<close> nor the empty string.\<close>

definition truthy :: "string option \<Rightarrow> bool" where
  "truthy x = (case x of None \<Rightarrow> False | Some s \<Rightarrow> s \<noteq> [])"

section \<open>The earnings parser\<close>

text \<open>Line 312: the header that opens the section.\<close>

definition earnings_header :: "string \<Rightarrow> bool" where
  "earnings_header line \<longleftrightarrow>
     py_in ''rate'' (py_lower line) \<and> py_in ''hours'' (py_lower line)
     \<and> py_in ''this period'' (py_lower line)"

text \<open>Line 317: the keywords that close it.\<close>

definition earnings_end :: "string \<Rightarrow> bool" where
  "earnings_end line \<longleftrightarrow>
     list_ex (\<lambda>keyword. py_in keyword line)
       [''Gross Pay'', ''Federal Income Tax'', ''Deductions'', ''Net Check'']"

text \<open>
  Line 324: \<open>re.match(r'^([A-Za-z\s]+)', line)\<close>, as its group 1: the longest leading
  run of letters and whitespace, when there is one.
\<close>

definition desc_match :: "string \<Rightarrow> string option" where
  "desc_match line =
     (let g = takeWhile (\<lambda>c. re_alpha c \<or> py_isspace c) line
      in if g = [] then None else Some g)"

text \<open>
  Lines 336-382: all amounts of the token list in order, stopping at the second
  consecutive token that starts no amount.
\<close>

function collect_amounts :: "string list \<Rightarrow> nat \<Rightarrow> nat \<Rightarrow> string list \<Rightarrow> string list" where
  "collect_amounts tokens idx consecutive_non_numbers amounts =
     (if idx < length tokens then
        (case amount_at tokens idx of
           Some (a, k) \<Rightarrow> collect_amounts tokens (idx + k) 0 (amounts @ [a])
         | None \<Rightarrow>
             if consecutive_non_numbers + 1 \<ge> 2 then amounts
             else collect_amounts tokens (idx + 1) (consecutive_non_numbers + 1) amounts)
      else amounts)"
  by pat_completeness auto
termination
  by (relation "measure (\<lambda>(tokens, idx, c, amounts). length tokens - idx)")
     (auto simp: amount_at_def split: if_splits)

declare collect_amounts.simps [simp del]

text \<open>Lines 388-404: which amounts become which fields, by their number.\<close>

definition assign_earnings :: "string \<Rightarrow> string list \<Rightarrow> pydict \<Rightarrow> pydict" where
  "assign_earnings description amounts earnings =
     (if length amounts \<ge> 4 then
        AList.update (''Earnings '' @ description @ '' YTD'') (amounts ! 3)
          (AList.update (''Earnings '' @ description) (amounts ! 2) earnings)
      else if length amounts = 2 then
        AList.update (''Earnings '' @ description @ '' YTD'') (amounts ! 1)
          (AList.update (''Earnings '' @ description) (amounts ! 0) earnings)
      else if length amounts = 1 then
        AList.update (''Earnings '' @ description @ '' YTD'') (amounts ! 0) earnings
      else if length amounts = 3 then
        AList.update (''Earnings '' @ description @ '' YTD'') (amounts ! 2)
          (AList.update (''Earnings '' @ description) (amounts ! 1) earnings)
      else earnings)"

text \<open>
  Lines 324-404, the body run on a non-blank line inside the section.  When the leading
  run is all whitespace the description is empty, \<open>'' in line\<close> holds, and
  \<open>line.split('', 1)\<close> raises \<open>ValueError\<close>.
\<close>

definition earnings_line :: "string \<Rightarrow> pydict \<Rightarrow> py_error + pydict" where
  "earnings_line line earnings =
     (case desc_match line of
        None \<Rightarrow> Inr earnings
      | Some g \<Rightarrow>
          let description = py_strip g in
          if description \<in> set [''Net Pay'', ''Net Check''] then Inr earnings
          else if py_in description line \<and> description = [] then Inl ValueError
          else
            let remainder = (if py_in description line then py_strip (py_after description line)
                             else py_strip line);
                tokens = py_split_ws remainder;
                amounts = collect_amounts tokens 0 0 []
            in Inr (assign_earnings description amounts earnings))"

text \<open>Lines 309-406: the loop over the lines, with its \<open>continue\<close> and \<open>break\<close>.\<close>

fun earnings_loop :: "bool \<Rightarrow> pydict \<Rightarrow> string list \<Rightarrow> py_error + pydict" where
  "earnings_loop in_earnings earnings [] = Inr earnings"
| "earnings_loop in_earnings earnings (line # lines) =
     (if earnings_header line then earnings_loop True earnings lines
      else if in_earnings \<and> earnings_end line then Inr earnings
      else if in_earnings \<and> py_strip line \<noteq> [] then
        (case earnings_line line earnings of
           Inl e \<Rightarrow> Inl e
         | Inr earnings' \<Rightarrow> earnings_loop in_earnings earnings' lines)
      else earnings_loop in_earnings earnings lines)"

definition parse_earnings_section :: "string \<Rightarrow> py_error + pydict" where
  "parse_earnings_section text = earnings_loop False [] (py_split_char CHR 0x0A text)"

section \<open>The deductions parser\<close>

definition deduction_names :: "string list" where
  "deduction_names =
     [''Federal Income Tax'', ''Social Security Tax'', ''Medicare Tax'', ''Medicare Surtax'',
      ''GA State Income Tax'', ''Rsu Net Value'', ''Basic Life Inc'', ''Accident'',
      ''Ad&D Spouse'', ''Ad&D'', ''After-Tax Ded'', ''Crit Ill Spouse'', ''Critical Illnes'',
      ''Dental Pretax'', ''Ee Life'', ''Espp'', ''Hsa'', ''Legal'', ''Medical Pretax'',
      ''Non Ca Std'', ''Roth 401K'', ''Spouse Life'', ''Vision Pretax'']"

definition benefit_deductions_that_may_be_ytd_only :: "string list" where
  "benefit_deductions_that_may_be_ytd_only =
     [''Basic Life Inc'', ''Accident'', ''Ad&D'', ''Ad&D Spouse'', ''After-Tax Ded'',
      ''Crit Ill Spouse'', ''Critical Illnes'', ''Dental Pretax'', ''Ee Life'', ''Hsa'',
      ''Legal'', ''Medical Pretax'', ''Non Ca Std'', ''Roth 401K'', ''Spouse Life'',
      ''Vision Pretax'']"

definition always_ytd_when_single :: "string list" where
  "always_ytd_when_single = [''Rsu Net Value'']"

text \<open>
  Lines 466-484: the three reasons to pass over an \<open>Espp\<close> found at \<open>pos\<close>:
  \<open>Espp Refund\<close>, a date fragment, or two groups of digits.
\<close>

definition espp_text_after :: "string \<Rightarrow> nat \<Rightarrow> string" where
  "espp_text_after line pos = py_slice (pos + 4) (pos + 20) line"

definition espp_skipped :: "string \<Rightarrow> nat \<Rightarrow> bool" where
  "espp_skipped line pos \<longleftrightarrow>
     py_slice pos (pos + 11) line = ''Espp Refund''
     \<or> re_match re_espp_date (espp_text_after line pos)
     \<or> re_match re_espp_amount (espp_text_after line pos)"

text \<open>Lines 461-485: the labels found on a line, each with the position of its first occurrence.\<close>

definition name_match :: "string \<Rightarrow> string \<Rightarrow> (nat \<times> string) list" where
  "name_match line deduction_name =
     (if py_in deduction_name line then
        (case py_find deduction_name line of
           None \<Rightarrow> []
         | Some pos \<Rightarrow>
             if deduction_name = ''Espp'' \<and> espp_skipped line pos then []
             else [(pos, deduction_name)])
      else [])"

definition line_matches :: "string \<Rightarrow> (nat \<times> string) list" where
  "line_matches line = concat (map (name_match line) deduction_names)"

text \<open>
  Lines 499-526: where a single amount goes.  \<open>amounts\<close> is the pair
  \<open>(this_period, ytd)\<close>; when only the first is there, the social-security rule, the
  \<open>Rsu Net Value\<close> rule and the rule for benefit deductions can move it to the second.
\<close>

definition route_single_amount ::
  "string \<Rightarrow> bool \<Rightarrow> bool \<Rightarrow> string option \<times> string option \<Rightarrow> string option \<times> string option" where
  "route_single_amount deduction_name in_section has_ytd_key amounts =
     (let amounts =
            (if deduction_name = ''Social Security Tax'' \<and> truthy (fst amounts)
                  \<and> \<not> truthy (snd amounts) \<and> \<not> prefix ''-'' (the (fst amounts))
             then (None, fst amounts) else amounts)
      in if truthy (fst amounts) \<and> \<not> truthy (snd amounts)
            \<and> deduction_name \<in> set always_ytd_when_single
         then (None, fst amounts)
         else if truthy (fst amounts) \<and> \<not> truthy (snd amounts)
            \<and> deduction_name \<in> set benefit_deductions_that_may_be_ytd_only
         then (if in_section then (None, fst amounts)
               else if \<not> has_ytd_key then (None, fst amounts)
               else amounts)
         else amounts)"

text \<open>Lines 528-531: the amounts that are there are stored.\<close>

definition store_amounts :: "string \<Rightarrow> string option \<times> string option \<Rightarrow> pydict \<Rightarrow> pydict" where
  "store_amounts deduction_name amounts deductions =
     (let deductions =
            (if truthy (fst amounts)
             then AList.update (''Deductions '' @ deduction_name) (the (fst amounts)) deductions
             else deductions)
      in if truthy (snd amounts)
         then AList.update (''Deductions '' @ deduction_name @ '' YTD'') (the (snd amounts)) deductions
         else deductions)"

text \<open>
  Lines 491-535: one matched label.  The state is the dictionary and the flag
  \<open>in_other_benefits_or_ytd_only_section\<close>.
\<close>

definition process_match :: "string \<Rightarrow> string \<Rightarrow> pydict \<times> bool \<Rightarrow> pydict \<times> bool" where
  "process_match line deduction_name st =
     (let deductions = fst st; in_section = snd st;
          key = ''Deductions '' @ deduction_name;
          key_ytd = ''Deductions '' @ deduction_name @ '' YTD''
      in if has_key deductions key \<or> has_key deductions key_ytd then st
         else
           let amounts = route_single_amount deduction_name in_section (has_key deductions key_ytd)
                           (extract_amounts_from_line line deduction_name);
               deductions = store_amounts deduction_name amounts deductions;
               in_section =
                 (in_section \<or>
                  (deduction_name \<in> set benefit_deductions_that_may_be_ytd_only
                   \<and> truthy (snd amounts) \<and> \<not> truthy (map_of deductions key)))
           in (deductions, in_section))"

text \<open>Lines 454-535: one line: the sentinel phrases, then its matches from left to right.\<close>

definition deductions_line :: "string \<Rightarrow> pydict \<times> bool \<Rightarrow> pydict \<times> bool" where
  "deductions_line line st =
     (let in_section = (snd st \<or> py_in ''Other Benefits and'' line
                        \<or> py_in ''this period total to date'' (py_lower line))
      in fold (\<lambda>m. process_match line (snd m)) (sort (line_matches line)) (fst st, in_section))"

definition parse_deductions_section :: "string \<Rightarrow> pydict" where
  "parse_deductions_section text =
     fst (fold deductions_line (py_split_char CHR 0x0A text) ([], False))"

section \<open>The other-benefits parser\<close>

definition benefit_names :: "string list" where
  "benefit_names = [''Current Match'', ''Espp *'', ''Ytd 401K Match'', ''Sick Earned Bal'']"

text \<open>
  \<open>fnmatch.fnmatch(name, pat)\<close> on a POSIX system (no case folding), for patterns made
  of literal characters, \<open>*\<close> and \<open>?\<close>; no pattern of the catalogue has a bracket.
\<close>

fun fnmatch :: "string \<Rightarrow> string \<Rightarrow> bool" where
  "fnmatch [] [] = True"
| "fnmatch (c # cs) [] = False"
| "fnmatch [] (p # ps) = (p = CHR ''*'' \<and> fnmatch [] ps)"
| "fnmatch (c # cs) (p # ps) =
     (if p = CHR ''*'' then fnmatch (c # cs) ps \<or> fnmatch cs (p # ps)
      else (p = CHR ''?'' \<or> p = c) \<and> fnmatch cs ps)"

text \<open>Line 559: does the pattern hold a glob character.\<close>

definition is_glob :: "string \<Rightarrow> bool" where
  "is_glob benefit_pattern \<longleftrightarrow> list_ex (\<lambda>c. c \<in> set benefit_pattern) ''*?[''"

text \<open>Line 571: a word of the candidate is a minus sign followed by digits.\<close>

definition has_negative :: "string list \<Rightarrow> bool" where
  "has_negative ws \<longleftrightarrow>
     list_ex (\<lambda>word. prefix ''-'' word
                \<and> py_isdigit (py_remove CHR '' '' (dropWhile (\<lambda>c. c = CHR ''-'') word))) ws"

text \<open>Lines 571-585: the two reasons to pass over a candidate that matches the pattern.\<close>

definition candidate_rejected :: "string \<Rightarrow> string list \<Rightarrow> string \<Rightarrow> bool" where
  "candidate_rejected benefit_pattern ws candidate \<longleftrightarrow>
     has_negative ws
     \<or> (benefit_pattern = ''Espp *'' \<and> prefix ''Espp '' candidate
        \<and> \<not> list_ex (\<lambda>c. c \<in> set (drop 5 candidate)) ''/-''
        \<and> py_isdigit (py_remove CHR '' '' (drop 5 candidate)))"

text \<open>
  Lines 565-588: for a start word \<open>i\<close>, the first candidate \<open>words[i:j]\<close>,
  \<open>i < j < min(i+5, len(words)+1)\<close>, that matches and is not passed over.
\<close>

definition glob_inner :: "string \<Rightarrow> string list \<Rightarrow> nat \<Rightarrow> string option" where
  "glob_inner benefit_pattern words i =
     map_option (\<lambda>j. py_join (py_slice i j words))
       (List.find
          (\<lambda>j. fnmatch (py_join (py_slice i j words)) benefit_pattern
                \<and> \<not> candidate_rejected benefit_pattern (py_slice i j words)
                       (py_join (py_slice i j words)))
          [i + 1 ..< min (i + 5) (length words + 1)])"

text \<open>Lines 562-590: the first start word with such a candidate.\<close>

definition glob_match_name :: "string \<Rightarrow> string \<Rightarrow> string option" where
  "glob_match_name benefit_pattern line =
     (let words = py_split_ws line
      in case List.find (\<lambda>i. truthy (glob_inner benefit_pattern words i)) [0 ..< length words] of
           None \<Rightarrow> None
         | Some i \<Rightarrow> glob_inner benefit_pattern words i)"

text \<open>Lines 558-594: \<open>matched_name\<close> for one pattern.\<close>

definition match_benefit :: "string \<Rightarrow> string \<Rightarrow> string option" where
  "match_benefit benefit_pattern line =
     (if is_glob benefit_pattern then glob_match_name benefit_pattern line
      else if py_in benefit_pattern line then Some benefit_pattern
      else None)"

text \<open>Lines 556-602: the patterns in order; the first that matches ends the line.\<close>

fun benefits_patterns :: "string \<Rightarrow> string list \<Rightarrow> pydict \<Rightarrow> pydict" where
  "benefits_patterns line [] benefits = benefits"
| "benefits_patterns line (benefit_pattern # rest) benefits =
     (case match_benefit benefit_pattern line of
        None \<Rightarrow> benefits_patterns line rest benefits
      | Some matched_name \<Rightarrow>
          if matched_name = [] then benefits_patterns line rest benefits
          else
            (case extract_first_amount_from_line line matched_name of
               None \<Rightarrow> benefits
             | Some amount \<Rightarrow>
                 if amount = [] then benefits
                 else AList.update (''Other Benefits '' @ matched_name) amount benefits))"

definition parse_other_benefits_section :: "string \<Rightarrow> pydict" where
  "parse_other_benefits_section text =
     fold (\<lambda>line benefits. benefits_patterns line benefit_names benefits)
       (py_split_char CHR 0x0A text) []"

section \<open>The taxable-wages probe\<close>







section \<open>The year-to-date validator\<close>

text \<open>
  The validator reads a stored value with \<open>float(...)\<close>, compares with a tolerance, and
  writes a value back with \<open>str(...)\<close>.  The three operations are a parameter of the
  model: \<open>float_of\<close> is \<open>None\<close> where Python raises \<open>ValueError\<close>, and
  \<open>decreased cur prev\<close> is \<open>cur < prev - 0.01\<close>.
\<close>

record 'f float_ops =
  float_of :: "string \<Rightarrow> 'f option"
  decreased :: "'f \<Rightarrow> 'f \<Rightarrow> bool"
  str_of :: "'f \<Rightarrow> string"

text \<open>The warning of lines 703-704: field, last value, current value, source file.\<close>

datatype 'f warning = Warning string 'f 'f string

definition ends_with_ytd :: "string \<Rightarrow> bool" where
  "ends_with_ytd key \<longleftrightarrow> suffix '' YTD'' key"

text \<open>Lines 681-685: the keys that end in \<open>YTD\<close>, each once, in order of first appearance.\<close>

definition ytd_fields :: "pydict list \<Rightarrow> string list" where
  "ytd_fields data = remdups (filter ends_with_ytd (concat (map (map fst) data)))"

text \<open>
  Lines 689-713 for one field: the records in order, with \<open>last_valid_value\<close>.  The
  result is the records after the pass and the warnings printed.
\<close>

fun validate_field ::
  "'f float_ops \<Rightarrow> string \<Rightarrow> 'f option \<Rightarrow> pydict list \<Rightarrow> pydict list \<times> 'f warning list" where
  "validate_field ops ytd_field last_valid_value [] = ([], [])"
| "validate_field ops ytd_field last_valid_value (record # rest) =
     (let current_value_str = (case map_of record ytd_field of None \<Rightarrow> [] | Some v \<Rightarrow> v)
      in if current_value_str \<noteq> [] \<and> py_strip current_value_str \<noteq> [] then
           (case float_of ops (py_remove CHR '','' current_value_str) of
              None \<Rightarrow>
                (let r = validate_field ops ytd_field last_valid_value rest
                 in (record # fst r, snd r))
            | Some current_value \<Rightarrow>
                (let warned =
                       (case last_valid_value of
                          None \<Rightarrow> []
                        | Some l \<Rightarrow>
                            if decreased ops current_value l
                            then [Warning ytd_field l current_value
                                    (case map_of record ''Source File'' of
                                       None \<Rightarrow> ''unknown file'' | Some f \<Rightarrow> f)]
                            else []);
                     r = validate_field ops ytd_field (Some current_value) rest
                 in (record # fst r, warned @ snd r)))
         else
           (case last_valid_value of
              None \<Rightarrow>
                (let r = validate_field ops ytd_field last_valid_value rest
                 in (record # fst r, snd r))
            | Some l \<Rightarrow>
                (let r = validate_field ops ytd_field last_valid_value rest
                 in (AList.update ytd_field (str_of ops l) record # fst r, snd r))))"

text \<open>
  Lines 688-713: the fields one after the other.  Python iterates over a \<open>set\<close>, in an
  order it does not promise; \<open>validate_fields\<close> takes the order as a list.
\<close>

fun validate_fields ::
  "'f float_ops \<Rightarrow> string list \<Rightarrow> pydict list \<Rightarrow> pydict list \<times> 'f warning list" where
  "validate_fields ops [] data = (data, [])"
| "validate_fields ops (ytd_field # ytd_rest) data =
     (let r = validate_field ops ytd_field None data;
          r' = validate_fields ops ytd_rest (fst r)
      in (fst r', snd r @ snd r'))"

text \<open>\<open>validate_and_fix_ytd_values\<close> (lines 665-715), for given float operations.\<close>

definition validate_and_fix_ytd_values_with ::
  "'f float_ops \<Rightarrow> pydict list \<Rightarrow> pydict list \<times> 'f warning list" where
  "validate_and_fix_ytd_values_with ops data =
     (if data = [] then (data, []) else validate_fields ops (ytd_fields data) data)"

subsection \<open>Python floats on the amounts of this program\<close>

text \<open>
  \<open>float(s)\<close> and \<open>str(x)\<close> for plain decimal texts: an optional sign, digits, at most
  one dot, at most fifteen significant digits, magnitude zero or from 0.0001 up to, not
  including, \<open>10^16\<close>.  Such a text denotes a double whose shortest round-trip
  representation, which \<open>str\<close> prints in positional notation, is the same decimal with no
  leading zero but one before the dot and no trailing zero but one after it.  A value is
  kept as sign, integer digits and fraction digits in that form.  Texts outside this form
  (exponents, \<open>inf\<close>, \<open>nan\<close>, underscores, more significant digits) are not modelled
  and read as unparseable; the amounts the parsers store are all inside it.
\<close>

datatype pyfloat = PyFloat bool string string

definition norm_int_digits :: "string \<Rightarrow> string" where
  "norm_int_digits ds =
     (let d = dropWhile (\<lambda>c. c = CHR ''0'') ds in if d = [] then ''0'' else d)"

definition norm_frac_digits :: "string \<Rightarrow> string" where
  "norm_frac_digits ds =
     (let d = rev (dropWhile (\<lambda>c. c = CHR ''0'') (rev ds)) in if d = [] then ''0'' else d)"

text \<open>The digits of a decimal from its first to its last non-zero one.\<close>

definition significant_digits :: "string \<Rightarrow> string" where
  "significant_digits ds =
     rev (dropWhile (\<lambda>c. c = CHR ''0'') (rev (dropWhile (\<lambda>c. c = CHR ''0'') ds)))"

definition py_float :: "string \<Rightarrow> pyfloat option" where
  "py_float s =
     (let t = py_strip s;
          negative = prefix ''-'' t;
          body = (if prefix ''-'' t \<or> prefix ''+'' t then drop 1 t else t);
          int_part = takeWhile re_digit body;
          rest = dropWhile re_digit body;
          frac_part = drop 1 rest;
          i = norm_int_digits int_part;
          f = norm_frac_digits frac_part
      in if (rest = [] \<or> (prefix ''.'' rest \<and> list_all re_digit frac_part))
            \<and> (int_part \<noteq> [] \<or> frac_part \<noteq> [])
            \<and> length (significant_digits (int_part @ frac_part)) \<le> 15
            \<and> length i \<le> 16
            \<and> (i \<noteq> ''0'' \<or> f = ''0'' \<or> length (takeWhile (\<lambda>c. c = CHR ''0'') f) \<le> 3)
         then Some (PyFloat negative i f)
         else None)"

definition py_str :: "pyfloat \<Rightarrow> string" where
  "py_str x = (case x of PyFloat negative i f \<Rightarrow> (if negative then ''-'' else []) @ i @ ''.'' @ f)"

text \<open>
  The tolerance test \<open>current_value < last_valid_value - 0.01\<close> is computed as Python
  computes it, in IEEE 754 binary64 with round-to-nearest, ties to even: the two texts and
  the literal \<open>0.01\<close> are each rounded to a double, the difference is rounded again, and
  the comparison is exact.  A number is a pair of integers, numerator and positive
  denominator; a double is such a pair whose denominator is a power of two.  All values
  met here are zero or normal doubles, so neither underflow nor overflow is modelled.
\<close>

definition digit_value :: "char \<Rightarrow> int" where
  "digit_value c =
     (case List.find (\<lambda>p. fst p = c) (zip ''0123456789'' [0, 1, 2, 3, 4, 5, 6, 7, 8, 9]) of
        None \<Rightarrow> 0 | Some p \<Rightarrow> snd p)"

definition digits_value :: "string \<Rightarrow> int" where
  "digits_value ds = foldl (\<lambda>a c. 10 * a + digit_value c) 0 ds"

text \<open>The exact value of the decimal a float was read from.\<close>

definition decimal_value :: "pyfloat \<Rightarrow> int \<times> int" where
  "decimal_value x =
     (case x of PyFloat negative i f \<Rightarrow>
        (let m = digits_value (i @ f)
         in (if negative then - m else m, 10 ^ length f)))"

function bit_length :: "int \<Rightarrow> nat" where
  "bit_length n = (if n \<le> 0 then 0 else Suc (bit_length (n div 2)))"
  by pat_completeness auto
termination by (relation "measure nat") auto

declare bit_length.simps [simp del]

text \<open>The integer nearest to \<open>n / d\<close> for \<open>0 \<le> n\<close> and \<open>0 < d\<close>, the even one on a tie.\<close>

definition round_half_even :: "int \<Rightarrow> int \<Rightarrow> int" where
  "round_half_even n d =
     (let q = n div d; r = n mod d
      in if 2 * r < d then q
         else if d < 2 * r then q + 1
         else if even q then q else q + 1)"

text \<open>\<open>v * 2^e\<close>.\<close>

definition scale_by :: "int \<Rightarrow> int \<times> int \<Rightarrow> int \<times> int" where
  "scale_by e v = (if 0 \<le> e then (fst v * 2 ^ nat e, snd v) else (fst v, snd v * 2 ^ nat (- e)))"

text \<open>
  The double nearest to \<open>v\<close>: the exponent \<open>e\<close> is the one with
  \<open>2^52 \<le> |v| / 2^e < 2^53\<close>, and the significand is that quotient rounded.
\<close>

definition round_double :: "int \<times> int \<Rightarrow> int \<times> int" where
  "round_double v =
     (if fst v = 0 then (0, 1)
      else
        let a = (\<bar>fst v\<bar>, snd v);
            e0 = int (bit_length (fst a)) - int (bit_length (snd a)) - 53;
            e = (if 2 ^ 53 * snd (scale_by (- e0) a) \<le> fst (scale_by (- e0) a)
                 then e0 + 1 else e0);
            s = scale_by (- e) a;
            m = round_half_even (fst s) (snd s);
            r = scale_by e (m, 1)
        in (if fst v < 0 then - fst r else fst r, snd r))"

definition double_sub :: "int \<times> int \<Rightarrow> int \<times> int \<Rightarrow> int \<times> int" where
  "double_sub x y = round_double (fst x * snd y - fst y * snd x, snd x * snd y)"

definition double_less :: "int \<times> int \<Rightarrow> int \<times> int \<Rightarrow> bool" where
  "double_less x y \<longleftrightarrow> fst x * snd y < fst y * snd x"

definition py_decreased :: "pyfloat \<Rightarrow> pyfloat \<Rightarrow> bool" where
  "py_decreased cur prev \<longleftrightarrow>
     double_less (round_double (decimal_value cur))
       (double_sub (round_double (decimal_value prev)) (round_double (1, 100)))"

definition py_float_ops :: "pyfloat float_ops" where
  "py_float_ops = \<lparr>float_of = py_float, decreased = py_decreased, str_of = py_str\<rparr>"

definition validate_and_fix_ytd_values :: "pydict list \<Rightarrow> pydict list \<times> pyfloat warning list" where
  "validate_and_fix_ytd_values data = validate_and_fix_ytd_values_with py_float_ops data"

text \<open>The entries of a record whose key does not end in \<open>YTD\<close>, in their order.\<close>

definition non_ytd_part :: "pydict \<Rightarrow> pydict" where
  "non_ytd_part r = filter (\<lambda>kv. \<not> ends_with_ytd (fst kv)) r"

text \<open>
  The text right after the first \<open>Espp\<close> of a line is a date fragment: the probe of
  lines 476-477.
\<close>

definition espp_date_follows :: "string \<Rightarrow> bool" where
  "espp_date_follows line =
     (case py_find ''Espp'' line of
        None \<Rightarrow> False
      | Some pos \<Rightarrow> re_match re_espp_date (espp_text_after line pos))"

text \<open>The two keys under which a deduction label is stored.\<close>

definition deduction_keys :: "string \<Rightarrow> string set" where
  "deduction_keys n = {''Deductions '' @ n, ''Deductions '' @ n @ '' YTD''}"

text \<open>The keys that the labels found on a line can be stored under.\<close>

definition line_keys :: "string \<Rightarrow> string set" where
  "line_keys line = (\<Union>m\<in>set (line_matches line). deduction_keys (snd m))"

section \<open>The form of an amount\<close>

text \<open>
  \<open>canonical_amount\<close> is the pattern of the specification, \<open>-?\d+\.\d{2}\<close>, matched
  against the whole text: an optional minus, at least one digit, a dot, two digits.
  \<open>stored_amount\<close> is the same pattern with the integer digits optional,
  \<open>-?\d*\.\d{2}\<close>.
\<close>

definition stored_amount :: "string \<Rightarrow> bool" where
  "stored_amount v =
     (let b = (if prefix ''-'' v then drop 1 v else v);
          r = dropWhile re_digit b
      in length r = 3 \<and> prefix ''.'' r \<and> list_all re_digit (drop 1 r))"


text \<open>
  What \<open>clean_amount\<close> keeps of a text (everything but spaces, commas and asterisks),
  texts whose only whitespace is the space, and the items that follow the optional minus
  in the four amount patterns, with the least number of digits they ask for.
\<close>

definition keep_char :: "char \<Rightarrow> bool" where
  "keep_char c \<longleftrightarrow> c \<noteq> CHR '' '' \<and> c \<noteq> CHR '','' \<and> c \<noteq> CHR ''*''"

definition ws_only_space :: "string \<Rightarrow> bool" where
  "ws_only_space s \<longleftrightarrow> list_all (\<lambda>c. py_isspace c \<longrightarrow> c = CHR '' '') s"

definition ws_free :: "string \<Rightarrow> bool" where
  "ws_free t \<longleftrightarrow> list_all (\<lambda>c. \<not> py_isspace c) t"

fun body_item :: "item \<Rightarrow> bool" where
  "body_item (Rep Digit lo hi) = True"
| "body_item (Rep Space lo hi) = True"
| "body_item (Rep (Lit c) lo hi) = (c = CHR ''*'')"
| "body_item Eos = False"

fun digit_lo :: "item list \<Rightarrow> nat" where
  "digit_lo [] = 0"
| "digit_lo (Rep Digit lo hi # r) = lo + digit_lo r"
| "digit_lo (i # r) = digit_lo r"


definition opt_stored :: "string option \<Rightarrow> bool" where
  "opt_stored x = (case x of None \<Rightarrow> True | Some v \<Rightarrow> stored_amount v)"

section \<open>The rendering of the specification's lexer property\<close>









section \<open>Text primitives\<close>

lemma py_in_iff: "py_in sub s \<longleftrightarrow> (\<exists>pre post. s = pre @ sub @ post)"
proof (induction s)
  case Nil
  then show ?case by auto
next
  case (Cons c cs)
  show ?case
  proof
    assume "py_in sub (c # cs)"
    then consider "prefix sub (c # cs)" | "py_in sub cs" by auto
    then show "\<exists>pre post. c # cs = pre @ sub @ post"
    proof cases
      case 1
      then obtain post where "c # cs = sub @ post" by (auto simp: prefix_def)
      then have "c # cs = [] @ sub @ post" by simp
      then show ?thesis by blast
    next
      case 2
      with Cons.IH obtain pre post where "cs = pre @ sub @ post" by blast
      then have "c # cs = (c # pre) @ sub @ post" by simp
      then show ?thesis by blast
    qed
  next
    assume "\<exists>pre post. c # cs = pre @ sub @ post"
    then obtain pre post where e: "c # cs = pre @ sub @ post" by blast
    show "py_in sub (c # cs)"
    proof (cases pre)
      case Nil
      with e have "prefix sub (c # cs)" by (simp add: prefix_def)
      then show ?thesis by simp
    next
      case (Cons p ps)
      with e have "cs = ps @ sub @ post" by simp
      with Cons.IH have "py_in sub cs" by blast
      then show ?thesis by simp
    qed
  qed
qed

lemma py_strip_infix: "\<exists>pre post. s = pre @ py_strip s @ post"
proof -
  let ?t = "dropWhile py_isspace s"
  have a: "s = takeWhile py_isspace s @ ?t" by simp
  have b: "?t = py_strip s @ rev (takeWhile py_isspace (rev ?t))"
    unfolding py_strip_def by (metis rev_append rev_rev_ident takeWhile_dropWhile_id)
  from a b have "s = takeWhile py_isspace s @ py_strip s @ rev (takeWhile py_isspace (rev ?t))"
    by simp
  then show ?thesis by blast
qed


section \<open>The amount lexer\<close>

lemma potential_one: "idx < length tokens \<Longrightarrow> potential tokens idx (Suc 0) = tokens ! idx"
  by (simp add: potential_def py_slice_def hd_drop_conv_nth take_Suc)

lemma amount_at_longest:
  assumes "shape_fits tokens idx k" and "\<forall>j. k < j \<longrightarrow> \<not> shape_fits tokens idx j"
  shows "amount_at tokens idx = Some (clean_amount (potential tokens idx k), k)"
proof -
  from assms(1) have k: "k = 1 \<or> k = 2 \<or> k = 3 \<or> k = 4" and le: "idx + k \<le> length tokens"
    and m: "re_match (shape k) (potential tokens idx k)"
    by (auto simp: shape_fits_def)
  have n4: "k < 4 \<Longrightarrow> \<not> (idx + 3 < length tokens \<and> re_match re_amount4 (potential tokens idx 4))"
    using assms(2)[rule_format, of 4] by (auto simp: shape_fits_def shape_def)
  have n3: "k < 3 \<Longrightarrow> \<not> (idx + 2 < length tokens \<and> re_match re_amount3 (potential tokens idx 3))"
    using assms(2)[rule_format, of 3] by (auto simp: shape_fits_def shape_def)
  have n2: "k < 2 \<Longrightarrow> \<not> (idx + 1 < length tokens \<and> re_match re_amount2 (potential tokens idx 2))"
    using assms(2)[rule_format, of 2] by (auto simp: shape_fits_def shape_def)
  from k show ?thesis
  proof (elim disjE)
    assume "k = 1"
    with n4 n3 n2 m le show ?thesis
      by (auto simp: amount_at_def shape_def potential_one)
  next
    assume "k = 2"
    with n4 n3 m le show ?thesis
      by (auto simp: amount_at_def shape_def)
  next
    assume "k = 3"
    with n4 m le show ?thesis
      by (auto simp: amount_at_def shape_def)
  next
    assume "k = 4"
    with m le show ?thesis
      by (auto simp: amount_at_def shape_def)
  qed
qed

text \<open>
  Claim C8.  The claim says that \<open>extract_first_amount_from_line\<close> tries the four-token
  shape and so reads \<open>1 040 968 50\<close> as \<open>1040968.50\<close>.  The function starts at three
  tokens: on this input it finds no amount at all, while its sibling
  \<open>extract_amounts_from_line\<close>, which does try four tokens, reads the same text as
  \<open>1040968.50\<close>.
\<close>

theorem extract_first_amount_misses_four_token_shape:
  "extract_first_amount_from_line ''1 040 968 50'' '''' = None
   \<and> fst (extract_amounts_from_line ''1 040 968 50'' '''') = Some ''1040968.50''"
  by code_simp

text \<open>
  Claim C9, as stated: lexing \<open>1 234 56 78 90\<close> consumes four tokens as \<open>1234.56\<close>.
  It does not: the first amount ends at token index 3, having consumed three tokens.
\<close>

theorem first_amount_consumes_three_not_four:
  "first_amount (py_split_ws ''1 234 56 78 90'') 0 = Some (''1234.56'', 3)
   \<and> first_amount (py_split_ws ''1 234 56 78 90'') 0 \<noteq> Some (''1234.56'', 4)"
  by code_simp

text \<open>
  Claim C9, amended.  The cascade commits to the longest shape that fits at the index,
  whatever shorter shapes fit there too; and \<open>1 234 56 78 90\<close> is lexed as three tokens
  for \<open>1234.56\<close> followed by two tokens for \<open>78.90\<close>.
\<close>

theorem longest_shape_wins:
  "(shape_fits tokens idx k \<and> (\<forall>j. k < j \<longrightarrow> \<not> shape_fits tokens idx j)
      \<longrightarrow> amount_at tokens idx = Some (clean_amount (potential tokens idx k), k))
   \<and> py_split_ws ''1 234 56 78 90'' = [''1'', ''234'', ''56'', ''78'', ''90'']
   \<and> first_amount [''1'', ''234'', ''56'', ''78'', ''90''] 0 = Some (''1234.56'', 3)
   \<and> amount_at [''1'', ''234'', ''56'', ''78'', ''90''] 3 = Some (''78.90'', 2)
   \<and> extract_amounts_from_line ''1 234 56 78 90'' '''' = (Some ''1234.56'', Some ''78.90'')"
proof -
  have "py_split_ws ''1 234 56 78 90'' = [''1'', ''234'', ''56'', ''78'', ''90'']
   \<and> first_amount [''1'', ''234'', ''56'', ''78'', ''90''] 0 = Some (''1234.56'', 3)
   \<and> amount_at [''1'', ''234'', ''56'', ''78'', ''90''] 3 = Some (''78.90'', 2)
   \<and> extract_amounts_from_line ''1 234 56 78 90'' '''' = (Some ''1234.56'', Some ''78.90'')"
    by code_simp
  then show ?thesis
    using amount_at_longest by blast
qed

text \<open>
  At \<open>12 34\<close> the one-token shape fits (\<open>12\<close>) and so does the two-token shape; the
  two-token amount is the one returned.
\<close>

theorem longest_shape_wins_witness:
  "shape_fits [''12'', ''34''] 0 1 \<and> shape_fits [''12'', ''34''] 0 2
   \<and> \<not> shape_fits [''12'', ''34''] 0 3 \<and> \<not> shape_fits [''12'', ''34''] 0 4
   \<and> amount_at [''12'', ''34''] 0 = Some (''12.34'', 2)"
proof -
  have a: "shape_fits [''12'', ''34''] 0 2" by code_simp
  have b: "\<forall>j. 2 < j \<longrightarrow> \<not> shape_fits [''12'', ''34''] 0 j" by (simp add: shape_fits_def)
  have c: "shape_fits [''12'', ''34''] 0 1" by code_simp
  have d: "clean_amount (potential [''12'', ''34''] 0 2) = ''12.34''" by code_simp
  from longest_shape_wins [of "[''12'', ''34'']" 0 2] a b c d show ?thesis by simp
qed

section \<open>The earnings parser\<close>

lemma desc_in_line:
  assumes "desc_match line = Some g"
  shows "py_in (py_strip g) line"
proof -
  from assms have g: "g = takeWhile (\<lambda>c. re_alpha c \<or> py_isspace c) line"
    by (auto simp: desc_match_def Let_def split: if_splits)
  obtain pre post where "g = pre @ py_strip g @ post" using py_strip_infix by blast
  moreover have "line = g @ dropWhile (\<lambda>c. re_alpha c \<or> py_isspace c) line"
    using g by simp
  ultimately have "line = pre @ py_strip g @ (post @ dropWhile (\<lambda>c. re_alpha c \<or> py_isspace c) line)"
    by (metis append.assoc)
  then show ?thesis unfolding py_in_iff by blast
qed

lemma earnings_line_labelled:
  assumes "desc_match line = Some g" and "py_strip g \<noteq> []"
    and "py_strip g \<noteq> ''Net Pay''" and "py_strip g \<noteq> ''Net Check''"
  shows "earnings_line line earnings =
     Inr (assign_earnings (py_strip g)
            (collect_amounts (py_split_ws (py_strip (py_after (py_strip g) line))) 0 0 [])
            earnings)"
  using assms desc_in_line[OF assms(1)]
  by (simp add: earnings_line_def Let_def)

text \<open>
  Claim C2.  The fields follow the number of amounts collected on the line: with four,
  the third and fourth amount; with three, the second and third; with two, both; with
  one, the year-to-date field alone.  On a line of the section whose leading run of
  letters and spaces, stripped, is a label other than \<open>Net Pay\<close> and \<open>Net Check\<close>, the
  amounts are those collected from the text after the label.  The line
  \<open>Regular 5000 00 80 00 5 000 00 5 000 00\<close> after the section header gives
  \<open>Earnings Regular\<close> and \<open>Earnings Regular YTD\<close>, both \<open>5000.00\<close>.
\<close>

theorem earnings_fields_by_amount_count:
  "(length amounts = 4 \<longrightarrow> assign_earnings d amounts e =
       AList.update (''Earnings '' @ d @ '' YTD'') (amounts ! 3)
         (AList.update (''Earnings '' @ d) (amounts ! 2) e))
   \<and> (length amounts = 3 \<longrightarrow> assign_earnings d amounts e =
       AList.update (''Earnings '' @ d @ '' YTD'') (amounts ! 2)
         (AList.update (''Earnings '' @ d) (amounts ! 1) e))
   \<and> (length amounts = 2 \<longrightarrow> assign_earnings d amounts e =
       AList.update (''Earnings '' @ d @ '' YTD'') (amounts ! 1)
         (AList.update (''Earnings '' @ d) (amounts ! 0) e))
   \<and> (length amounts = 1 \<longrightarrow> assign_earnings d amounts e =
       AList.update (''Earnings '' @ d @ '' YTD'') (amounts ! 0) e)
   \<and> (desc_match line = Some g \<and> py_strip g \<noteq> []
        \<and> py_strip g \<noteq> ''Net Pay'' \<and> py_strip g \<noteq> ''Net Check''
      \<longrightarrow> earnings_line line e =
            Inr (assign_earnings (py_strip g)
                   (collect_amounts (py_split_ws (py_strip (py_after (py_strip g) line))) 0 0 [])
                   e))
   \<and> collect_amounts (py_split_ws ''5000 00 80 00 5 000 00 5 000 00'') 0 0 []
       = [''5000.00'', ''80.00'', ''5000.00'', ''5000.00'']
   \<and> parse_earnings_section (''rate hours this period year to date'' @ [CHR 0x0A]
        @ ''Regular 5000 00 80 00 5 000 00 5 000 00'')
       = Inr [(''Earnings Regular'', ''5000.00''), (''Earnings Regular YTD'', ''5000.00'')]"
proof -
  have a4: "length amounts = 4 \<longrightarrow> assign_earnings d amounts e =
       AList.update (''Earnings '' @ d @ '' YTD'') (amounts ! 3)
         (AList.update (''Earnings '' @ d) (amounts ! 2) e)"
    by (simp add: assign_earnings_def)
  have a3: "length amounts = 3 \<longrightarrow> assign_earnings d amounts e =
       AList.update (''Earnings '' @ d @ '' YTD'') (amounts ! 2)
         (AList.update (''Earnings '' @ d) (amounts ! 1) e)"
    by (simp add: assign_earnings_def)
  have a2: "length amounts = 2 \<longrightarrow> assign_earnings d amounts e =
       AList.update (''Earnings '' @ d @ '' YTD'') (amounts ! 1)
         (AList.update (''Earnings '' @ d) (amounts ! 0) e)"
    by (simp add: assign_earnings_def)
  have a1: "length amounts = 1 \<longrightarrow> assign_earnings d amounts e =
       AList.update (''Earnings '' @ d @ '' YTD'') (amounts ! 0) e"
    by (simp add: assign_earnings_def)
  have l: "desc_match line = Some g \<and> py_strip g \<noteq> []
        \<and> py_strip g \<noteq> ''Net Pay'' \<and> py_strip g \<noteq> ''Net Check''
      \<longrightarrow> earnings_line line e =
            Inr (assign_earnings (py_strip g)
                   (collect_amounts (py_split_ws (py_strip (py_after (py_strip g) line))) 0 0 [])
                   e)"
    by (intro impI, elim conjE, rule earnings_line_labelled)
  have c: "collect_amounts (py_split_ws ''5000 00 80 00 5 000 00 5 000 00'') 0 0 []
       = [''5000.00'', ''80.00'', ''5000.00'', ''5000.00'']"
    by code_simp
  have p: "parse_earnings_section (''rate hours this period year to date'' @ [CHR 0x0A]
        @ ''Regular 5000 00 80 00 5 000 00 5 000 00'')
       = Inr [(''Earnings Regular'', ''5000.00''), (''Earnings Regular YTD'', ''5000.00'')]"
    by code_simp
  from a4 a3 a2 a1 l c p show ?thesis by (intro conjI)
qed

text \<open>The claim's line: its label, its four amounts, and the fields they give.\<close>

theorem earnings_fields_by_amount_count_witness:
  "desc_match ''Regular 5000 00 80 00 5 000 00 5 000 00'' = Some ''Regular ''
   \<and> py_strip ''Regular '' = ''Regular''
   \<and> collect_amounts (py_split_ws (py_strip (py_after ''Regular''
         ''Regular 5000 00 80 00 5 000 00 5 000 00''))) 0 0 []
       = [''5000.00'', ''80.00'', ''5000.00'', ''5000.00'']
   \<and> length [''5000.00'', ''80.00'', ''5000.00'', ''5000.00''] = 4
   \<and> assign_earnings ''Regular'' [''5000.00'', ''80.00'', ''5000.00'', ''5000.00''] []
       = AList.update ''Earnings Regular YTD'' ''5000.00''
           (AList.update ''Earnings Regular'' ''5000.00'' [])
   \<and> earnings_line ''Regular 5000 00 80 00 5 000 00 5 000 00'' []
       = Inr (assign_earnings ''Regular'' [''5000.00'', ''80.00'', ''5000.00'', ''5000.00''] [])"
proof -
  let ?line = "''Regular 5000 00 80 00 5 000 00 5 000 00''"
  let ?am = "[''5000.00'', ''80.00'', ''5000.00'', ''5000.00'']"
  note t = earnings_fields_by_amount_count [of ?am "''Regular''" "[]" ?line "''Regular ''"]
  have m: "desc_match ?line = Some ''Regular ''" by code_simp
  have s: "py_strip ''Regular '' = ''Regular''" by code_simp
  have c: "collect_amounts (py_split_ws (py_strip (py_after ''Regular'' ?line))) 0 0 [] = ?am"
    by code_simp
  have n: "length ?am = 4" by simp
  have h: "desc_match ?line = Some ''Regular '' \<and> py_strip ''Regular '' \<noteq> []
        \<and> py_strip ''Regular '' \<noteq> ''Net Pay'' \<and> py_strip ''Regular '' \<noteq> ''Net Check''"
    unfolding s using m by simp
  have a: "assign_earnings ''Regular'' ?am []
       = AList.update ''Earnings Regular YTD'' ''5000.00''
           (AList.update ''Earnings Regular'' ''5000.00'' [])"
    using mp [OF conjunct1 [OF t] n] by simp
  have e: "earnings_line ?line [] = Inr (assign_earnings ''Regular'' ?am [])"
    using mp [OF conjunct1 [OF conjunct2 [OF conjunct2 [OF conjunct2 [OF conjunct2 [OF t]]]]] h]
    unfolding s c .
  from m s c n a e show ?thesis by (intro conjI)
qed

section \<open>The deductions parser\<close>

lemma has_key_iff: "has_key d k \<longleftrightarrow> k \<in> fst ` set d"
  by (simp add: has_key_def map_of_eq_None_iff)

lemma name_match_cases: "name_match line n = [] \<or> (\<exists>pos. name_match line n = [(pos, n)])"
  by (simp add: name_match_def split: option.split)

lemma name_match_snd: "m \<in> set (name_match line n) \<Longrightarrow> snd m = n"
  using name_match_cases[of line n] by auto

lemma line_matches_names:
  assumes "m \<in> set (line_matches line)"
  shows "snd m \<in> set deduction_names \<and> name_match line (snd m) \<noteq> []"
proof -
  from assms obtain n where n: "n \<in> set deduction_names" and m: "m \<in> set (name_match line n)"
    unfolding line_matches_def by auto
  from m have "snd m = n" by (rule name_match_snd)
  with n m show ?thesis by auto
qed

lemma store_amounts_keys:
  "fst ` set (store_amounts n amounts d) \<subseteq> fst ` set d \<union> deduction_keys n"
proof -
  have k1: "''Deductions '' @ n \<in> deduction_keys n"
    and k2: "''Deductions '' @ n @ '' YTD'' \<in> deduction_keys n"
    by (simp_all add: deduction_keys_def)
  have u: "\<And>k v e. k \<in> deduction_keys n \<Longrightarrow> fst ` set e \<subseteq> fst ` set d \<union> deduction_keys n
      \<Longrightarrow> fst ` set (AList.update k v e) \<subseteq> fst ` set d \<union> deduction_keys n"
    by (simp add: dom_update)
  have a: "fst ` set (if truthy (fst amounts)
             then AList.update (''Deductions '' @ n) (the (fst amounts)) d
             else d) \<subseteq> fst ` set d \<union> deduction_keys n"
    using u[OF k1, of d] by (cases "truthy (fst amounts)") simp_all
  show ?thesis
    unfolding store_amounts_def Let_def
    using u[OF k2 a] a by (cases "truthy (snd amounts)") simp_all
qed

lemma process_match_cases:
  "process_match line n st = st
   \<or> (\<exists>amounts flag. process_match line n st = (store_amounts n amounts (fst st), flag))"
  unfolding process_match_def Let_def
  by (cases "has_key (fst st) (''Deductions '' @ n) \<or> has_key (fst st) (''Deductions '' @ n @ '' YTD'')")
     (simp_all only: if_True if_False, blast+)

lemma process_match_keys:
  "fst ` set (fst (process_match line n st)) \<subseteq> fst ` set (fst st) \<union> deduction_keys n"
proof -
  from process_match_cases[of line n st] show ?thesis
  proof
    assume "process_match line n st = st"
    then show ?thesis by auto
  next
    assume "\<exists>amounts flag. process_match line n st = (store_amounts n amounts (fst st), flag)"
    then obtain amounts flag
      where "process_match line n st = (store_amounts n amounts (fst st), flag)" by blast
    then show ?thesis using store_amounts_keys[of n amounts "fst st"] by simp
  qed
qed

lemma fold_process_match_keys:
  "fst ` set (fst (fold (\<lambda>m. process_match line (snd m)) ms st))
     \<subseteq> fst ` set (fst st) \<union> (\<Union>m\<in>set ms. deduction_keys (snd m))"
proof (induction ms arbitrary: st)
  case Nil
  then show ?case by simp
next
  case (Cons m ms)
  have a: "fst ` set (fst (fold (\<lambda>m. process_match line (snd m)) ms (process_match line (snd m) st)))
     \<subseteq> fst ` set (fst (process_match line (snd m) st)) \<union> (\<Union>m\<in>set ms. deduction_keys (snd m))"
    by (rule Cons.IH)
  have b: "fst ` set (fst (process_match line (snd m) st)) \<subseteq> fst ` set (fst st) \<union> deduction_keys (snd m)"
    by (rule process_match_keys)
  have "fst ` set (fst (fold (\<lambda>m. process_match line (snd m)) ms (process_match line (snd m) st)))
     \<subseteq> fst ` set (fst st) \<union> (deduction_keys (snd m) \<union> (\<Union>m\<in>set ms. deduction_keys (snd m)))"
    using a b by blast
  then show ?case by simp
qed

lemma deductions_line_keys:
  "fst ` set (fst (deductions_line line st)) \<subseteq> fst ` set (fst st) \<union> line_keys line"
proof -
  define st' where "st' = (fst st, snd st \<or> py_in ''Other Benefits and'' line
                        \<or> py_in ''this period total to date'' (py_lower line))"
  have e: "deductions_line line st = fold (\<lambda>m. process_match line (snd m)) (sort (line_matches line)) st'"
    unfolding deductions_line_def Let_def st'_def ..
  have "fst ` set (fst (fold (\<lambda>m. process_match line (snd m)) (sort (line_matches line)) st'))
     \<subseteq> fst ` set (fst st') \<union> (\<Union>m\<in>set (sort (line_matches line)). deduction_keys (snd m))"
    by (rule fold_process_match_keys)
  moreover have "fst st' = fst st" unfolding st'_def by simp
  moreover have "set (sort (line_matches line)) = set (line_matches line)" by simp
  ultimately show ?thesis unfolding e line_keys_def by simp
qed

lemma fold_deductions_line_keys:
  "fst ` set (fst (fold deductions_line ls st))
     \<subseteq> fst ` set (fst st) \<union> (\<Union>line\<in>set ls. line_keys line)"
proof (induction ls arbitrary: st)
  case Nil
  then show ?case by simp
next
  case (Cons l ls)
  have a: "fst ` set (fst (fold deductions_line ls (deductions_line l st)))
     \<subseteq> fst ` set (fst (deductions_line l st)) \<union> (\<Union>line\<in>set ls. line_keys line)"
    by (rule Cons.IH)
  have b: "fst ` set (fst (deductions_line l st)) \<subseteq> fst ` set (fst st) \<union> line_keys l"
    by (rule deductions_line_keys)
  have "fst ` set (fst (fold deductions_line ls (deductions_line l st)))
     \<subseteq> fst ` set (fst st) \<union> (line_keys l \<union> (\<Union>line\<in>set ls. line_keys line))"
    using a b by blast
  then show ?case by simp
qed

lemma parse_deductions_keys:
  assumes "has_key (parse_deductions_section text) k"
  shows "\<exists>line\<in>set (py_split_char CHR 0x0A text). \<exists>n\<in>set deduction_names.
           name_match line n \<noteq> [] \<and> k \<in> deduction_keys n"
proof -
  define ls where "ls = py_split_char CHR 0x0A text"
  define K where "K = fst ` set (fst (fold deductions_line ls ([], False)))"
  define U where "U = (\<Union>line\<in>set ls. line_keys line)"
  from assms have kin: "k \<in> K"
    unfolding K_def ls_def has_key_iff parse_deductions_section_def .
  have "K \<subseteq> fst ` set (fst (([], False) :: pydict \<times> bool)) \<union> U"
    unfolding K_def U_def by (rule fold_deductions_line_keys)
  then have "K \<subseteq> U" by simp
  with kin have "k \<in> U" by (rule rev_subsetD)
  then obtain line m where l: "line \<in> set ls" and m: "m \<in> set (line_matches line)"
    and k: "k \<in> deduction_keys (snd m)"
    unfolding U_def line_keys_def by blast
  from line_matches_names[OF m] have "snd m \<in> set deduction_names" "name_match line (snd m) \<noteq> []"
    by simp_all
  with l k show ?thesis unfolding ls_def by (intro bexI[of _ line] bexI[of _ "snd m"] conjI)
qed

lemma espp_key_label:
  assumes "n \<in> set deduction_names" and "k \<in> deduction_keys n"
    and "k = ''Deductions Espp'' \<or> k = ''Deductions Espp YTD''"
  shows "n = ''Espp''"
proof -
  from assms(2,3) have "n = ''Espp'' \<or> n = ''Espp YTD'' \<or> n @ '' YTD'' = ''Espp''"
    by (auto simp: deduction_keys_def)
  moreover have "''Espp YTD'' \<notin> set deduction_names" by (simp add: deduction_names_def)
  moreover have "n @ '' YTD'' \<noteq> ''Espp''"
  proof
    assume "n @ '' YTD'' = ''Espp''"
    then have "last (n @ '' YTD'') = last ''Espp''" by simp
    then show False by simp
  qed
  ultimately show ?thesis using assms(1) by auto
qed

lemma name_match_espp_date:
  assumes "py_in ''Espp'' line \<longrightarrow> espp_date_follows line"
  shows "name_match line ''Espp'' = []"
proof (cases "py_in ''Espp'' line")
  case False
  then show ?thesis by (simp add: name_match_def)
next
  case True
  with assms have "espp_date_follows line" by simp
  then obtain pos where p: "py_find ''Espp'' line = Some pos"
    and d: "re_match re_espp_date (espp_text_after line pos)"
    by (cases "py_find ''Espp'' line") (simp_all add: espp_date_follows_def)
  from d have "espp_skipped line pos" by (simp add: espp_skipped_def)
  with p show ?thesis by (simp add: name_match_def)
qed

lemma no_espp_deduction:
  assumes "\<forall>line\<in>set (py_split_char CHR 0x0A text). py_in ''Espp'' line \<longrightarrow> espp_date_follows line"
    and k: "k = ''Deductions Espp'' \<or> k = ''Deductions Espp YTD''"
  shows "\<not> has_key (parse_deductions_section text) k"
proof
  assume "has_key (parse_deductions_section text) k"
  then obtain line n where l: "line \<in> set (py_split_char CHR 0x0A text)"
    and n: "n \<in> set deduction_names" and m: "name_match line n \<noteq> []"
    and e: "k \<in> deduction_keys n"
    using parse_deductions_keys by blast
  from n e k have "n = ''Espp''" by (rule espp_key_label)
  moreover from assms(1) l have "py_in ''Espp'' line \<longrightarrow> espp_date_follows line" by (rule bspec)
  then have "name_match line ''Espp'' = []" by (rule name_match_espp_date)
  ultimately show False using m by simp
qed

lemma social_security_step:
  assumes "extract_amounts_from_line line ''Social Security Tax'' = (Some a, None)"
   and "a \<noteq> []" and "\<not> prefix ''-'' a"
   and "\<not> has_key deductions ''Deductions Social Security Tax''"
   and "\<not> has_key deductions ''Deductions Social Security Tax YTD''"
  shows "process_match line ''Social Security Tax'' (deductions, flag)
           = (AList.update ''Deductions Social Security Tax YTD'' a deductions, flag)"
proof -
  have r: "route_single_amount ''Social Security Tax'' flag False (Some a, None) = (None, Some a)"
    using assms(2,3)
    by (simp add: route_single_amount_def Let_def truthy_def)
  have s: "store_amounts ''Social Security Tax'' (None, Some a) deductions
           = AList.update ''Deductions Social Security Tax YTD'' a deductions"
    using assms(2) by (simp add: store_amounts_def Let_def truthy_def)
  have b: "''Social Security Tax'' \<notin> set benefit_deductions_that_may_be_ytd_only"
    by (simp add: benefit_deductions_that_may_be_ytd_only_def)
  show ?thesis
    using assms(1,4,5) r s b
    by (simp add: process_match_def Let_def)
qed

text \<open>
  Claim C3.  The claim says that on a line with \<open>Ad&D Spouse\<close> the shorter label
  \<open>Ad&D\<close> contributes no field.  Both labels are found on the line, at the same
  position; sorting puts \<open>Ad&D\<close> first, and each of them stores the amounts of the line.
\<close>

theorem prefix_label_fires_with_longer_label:
  "sort (line_matches ''Ad&D Spouse -1 23 4 56'') = [(0, ''Ad&D''), (0, ''Ad&D Spouse'')]
   \<and> parse_deductions_section ''Ad&D Spouse -1 23 4 56'' =
     [(''Deductions Ad&D'', ''-1.23''), (''Deductions Ad&D YTD'', ''4.56''),
      (''Deductions Ad&D Spouse'', ''-1.23''), (''Deductions Ad&D Spouse YTD'', ''4.56'')]"
  by code_simp

text \<open>
  Claim C7.  The line \<open>Espp 3/15-9/14 2 500 00\<close> gives the other-benefits parser the
  field \<open>Other Benefits Espp 3/15-9/14\<close> with \<open>2500.00\<close>, and gives the deductions
  parser nothing.  In any text, when on every line that holds \<open>Espp\<close> the text after
  its first occurrence is a date fragment, the deductions parser stores neither
  \<open>Deductions Espp\<close> nor \<open>Deductions Espp YTD\<close>.
\<close>

theorem espp_date_line_is_benefit_not_deduction:
  "parse_other_benefits_section ''Espp 3/15-9/14 2 500 00''
     = [(''Other Benefits Espp 3/15-9/14'', ''2500.00'')]
   \<and> match_benefit ''Espp *'' ''Espp 3/15-9/14 2 500 00'' = Some ''Espp 3/15-9/14''
   \<and> extract_first_amount_from_line ''Espp 3/15-9/14 2 500 00'' ''Espp 3/15-9/14'' = Some ''2500.00''
   \<and> parse_deductions_section ''Espp 3/15-9/14 2 500 00'' = []
   \<and> ((\<forall>line\<in>set (py_split_char CHR 0x0A text). py_in ''Espp'' line \<longrightarrow> espp_date_follows line)
        \<longrightarrow> \<not> has_key (parse_deductions_section text) ''Deductions Espp''
          \<and> \<not> has_key (parse_deductions_section text) ''Deductions Espp YTD'')"
proof -
  have c1: "parse_other_benefits_section ''Espp 3/15-9/14 2 500 00''
     = [(''Other Benefits Espp 3/15-9/14'', ''2500.00'')]" by code_simp
  have c2: "match_benefit ''Espp *'' ''Espp 3/15-9/14 2 500 00'' = Some ''Espp 3/15-9/14''"
    by code_simp
  have c3: "extract_first_amount_from_line ''Espp 3/15-9/14 2 500 00'' ''Espp 3/15-9/14'' = Some ''2500.00''"
    by code_simp
  have c4: "parse_deductions_section ''Espp 3/15-9/14 2 500 00'' = []" by code_simp
  have g: "(\<forall>line\<in>set (py_split_char CHR 0x0A text). py_in ''Espp'' line \<longrightarrow> espp_date_follows line)
        \<longrightarrow> \<not> has_key (parse_deductions_section text) ''Deductions Espp''
          \<and> \<not> has_key (parse_deductions_section text) ''Deductions Espp YTD''"
  proof (intro impI conjI)
    assume h: "\<forall>line\<in>set (py_split_char CHR 0x0A text). py_in ''Espp'' line \<longrightarrow> espp_date_follows line"
    show "\<not> has_key (parse_deductions_section text) ''Deductions Espp''"
      by (rule no_espp_deduction [OF h]) (rule disjI1, rule refl)
    show "\<not> has_key (parse_deductions_section text) ''Deductions Espp YTD''"
      by (rule no_espp_deduction [OF h]) (rule disjI2, rule refl)
  qed
  from c1 c2 c3 c4 g show ?thesis by (intro conjI)
qed

text \<open>
  A text of two lines: the benefit line of the claim and a Medicare line.  The first
  holds \<open>Espp\<close> followed by a date fragment, the second does not hold \<open>Espp\<close>.
\<close>

theorem espp_date_line_is_benefit_not_deduction_witness:
  "py_split_char CHR 0x0A (''Espp 3/15-9/14 2 500 00'' @ [CHR 0x0A] @ ''Medicare Tax -5 00 10 00'')
     = [''Espp 3/15-9/14 2 500 00'', ''Medicare Tax -5 00 10 00'']
   \<and> py_in ''Espp'' ''Espp 3/15-9/14 2 500 00''
   \<and> espp_date_follows ''Espp 3/15-9/14 2 500 00''
   \<and> \<not> py_in ''Espp'' ''Medicare Tax -5 00 10 00''
   \<and> \<not> has_key (parse_deductions_section
          (''Espp 3/15-9/14 2 500 00'' @ [CHR 0x0A] @ ''Medicare Tax -5 00 10 00''))
        ''Deductions Espp''
   \<and> \<not> has_key (parse_deductions_section
          (''Espp 3/15-9/14 2 500 00'' @ [CHR 0x0A] @ ''Medicare Tax -5 00 10 00''))
        ''Deductions Espp YTD''"
proof -
  let ?t = "''Espp 3/15-9/14 2 500 00'' @ [CHR 0x0A] @ ''Medicare Tax -5 00 10 00''"
  have s: "py_split_char CHR 0x0A ?t = [''Espp 3/15-9/14 2 500 00'', ''Medicare Tax -5 00 10 00'']"
    by code_simp
  have a: "py_in ''Espp'' ''Espp 3/15-9/14 2 500 00''" by code_simp
  have b: "espp_date_follows ''Espp 3/15-9/14 2 500 00''" by code_simp
  have c: "\<not> py_in ''Espp'' ''Medicare Tax -5 00 10 00''" by code_simp
  have h: "\<forall>line\<in>set (py_split_char CHR 0x0A ?t). py_in ''Espp'' line \<longrightarrow> espp_date_follows line"
    unfolding s using b c by (simp only: list.set ball_simps insert_iff empty_iff simp_thms)
  have g: "\<not> has_key (parse_deductions_section ?t) ''Deductions Espp''
          \<and> \<not> has_key (parse_deductions_section ?t) ''Deductions Espp YTD''"
    by (rule mp [OF conjunct2 [OF conjunct2 [OF conjunct2 [OF conjunct2
          [OF espp_date_line_is_benefit_not_deduction]]]] h])
  from s a b c conjunct1 [OF g] conjunct2 [OF g] show ?thesis by (intro conjI)
qed

section \<open>The year-to-date validator\<close>

lemma non_ytd_part_update:
  "ends_with_ytd k \<Longrightarrow> non_ytd_part (AList.update k v al) = non_ytd_part al"
  by (induction al) (auto simp: non_ytd_part_def)

lemma map_of_non_ytd_part:
  "\<not> ends_with_ytd k \<Longrightarrow> map_of (non_ytd_part al) k = map_of al k"
  by (induction al) (auto simp: non_ytd_part_def)

lemma validate_field_frame:
  "ends_with_ytd f \<Longrightarrow>
   list_all2 (\<lambda>r' r. non_ytd_part r' = non_ytd_part r) (fst (validate_field ops f lv data)) data"
  by (induction data arbitrary: lv)
     (auto simp: Let_def non_ytd_part_update split: option.splits)

lemma validate_fields_frame:
  "list_all ends_with_ytd fs \<Longrightarrow>
   list_all2 (\<lambda>r' r. non_ytd_part r' = non_ytd_part r) (fst (validate_fields ops fs data)) data"
proof (induction fs arbitrary: data)
  case Nil
  then show ?case by (simp add: list_all2_refl)
next
  case (Cons f fs)
  have a: "list_all2 (\<lambda>r' r. non_ytd_part r' = non_ytd_part r)
             (fst (validate_field ops f None data)) data"
    using Cons.prems by (simp add: validate_field_frame)
  have b: "list_all2 (\<lambda>r' r. non_ytd_part r' = non_ytd_part r)
             (fst (validate_fields ops fs (fst (validate_field ops f None data))))
             (fst (validate_field ops f None data))"
    using Cons.prems Cons.IH by simp
  have "list_all2 (\<lambda>r' r. non_ytd_part r' = non_ytd_part r)
             (fst (validate_fields ops fs (fst (validate_field ops f None data)))) data"
    using list_all2_trans[OF _ b a] by simp
  then show ?case by (simp add: Let_def)
qed

lemma ytd_fields_all: "list_all ends_with_ytd (ytd_fields data)"
  by (simp add: ytd_fields_def list_all_iff)

lemma validate_with_frame:
  "list_all2 (\<lambda>r' r. non_ytd_part r' = non_ytd_part r)
     (fst (validate_and_fix_ytd_values_with ops data)) data"
  by (simp add: validate_and_fix_ytd_values_with_def validate_fields_frame ytd_fields_all)

lemma frame_unfold:
  assumes "list_all2 (\<lambda>r' r. non_ytd_part r' = non_ytd_part r) out data"
  shows "length out = length data
     \<and> (\<forall>i<length data. non_ytd_part (out ! i) = non_ytd_part (data ! i))
     \<and> (\<forall>i<length data. \<forall>key. \<not> ends_with_ytd key \<longrightarrow> map_of (out ! i) key = map_of (data ! i) key)"
proof -
  have l: "length out = length data" using assms by (rule list_all2_lengthD)
  have p: "\<And>i. i < length data \<Longrightarrow> non_ytd_part (out ! i) = non_ytd_part (data ! i)"
    using assms l by (simp add: list_all2_conv_all_nth)
  have m: "\<And>i key. i < length data \<Longrightarrow> \<not> ends_with_ytd key \<Longrightarrow> map_of (out ! i) key = map_of (data ! i) key"
  proof -
    fix i key assume "i < length data" "\<not> ends_with_ytd key"
    then show "map_of (out ! i) key = map_of (data ! i) key"
      using p[of i] map_of_non_ytd_part[of key "out ! i"] map_of_non_ytd_part[of key "data ! i"]
      by simp
  qed
  from l p m show ?thesis by blast
qed

text \<open>
  Claim C10.  Whatever the float operations, the validator returns as many records as it
  was given, in the same positions, and in each of them the entries whose key does not
  end in \<open>YTD\<close> are the same entries in the same order; in particular every such key
  has the value it had.  This holds for the order of fields of the model and for any
  other order in which the set of fields is run through.
\<close>

theorem validator_changes_only_ytd_fields:
  "length (fst (validate_and_fix_ytd_values_with ops data)) = length data
   \<and> (\<forall>i<length data.
         non_ytd_part (fst (validate_and_fix_ytd_values_with ops data) ! i) = non_ytd_part (data ! i))
   \<and> (\<forall>i<length data. \<forall>key. \<not> ends_with_ytd key \<longrightarrow>
         map_of (fst (validate_and_fix_ytd_values_with ops data) ! i) key = map_of (data ! i) key)
   \<and> (set fs = set (ytd_fields data) \<longrightarrow>
         length (fst (validate_fields ops fs data)) = length data
         \<and> (\<forall>i<length data.
               non_ytd_part (fst (validate_fields ops fs data) ! i) = non_ytd_part (data ! i))
         \<and> (\<forall>i<length data. \<forall>key. \<not> ends_with_ytd key \<longrightarrow>
               map_of (fst (validate_fields ops fs data) ! i) key = map_of (data ! i) key))"
proof -
  have a: "length (fst (validate_and_fix_ytd_values_with ops data)) = length data
   \<and> (\<forall>i<length data.
         non_ytd_part (fst (validate_and_fix_ytd_values_with ops data) ! i) = non_ytd_part (data ! i))
   \<and> (\<forall>i<length data. \<forall>key. \<not> ends_with_ytd key \<longrightarrow>
         map_of (fst (validate_and_fix_ytd_values_with ops data) ! i) key = map_of (data ! i) key)"
    by (rule frame_unfold[OF validate_with_frame])
  have b: "set fs = set (ytd_fields data) \<Longrightarrow>
         length (fst (validate_fields ops fs data)) = length data
         \<and> (\<forall>i<length data.
               non_ytd_part (fst (validate_fields ops fs data) ! i) = non_ytd_part (data ! i))
         \<and> (\<forall>i<length data. \<forall>key. \<not> ends_with_ytd key \<longrightarrow>
               map_of (fst (validate_fields ops fs data) ! i) key = map_of (data ! i) key)"
  proof -
    assume s: "set fs = set (ytd_fields data)"
    have "list_all ends_with_ytd fs"
      using s ytd_fields_all[of data] by (simp add: list_all_iff)
    then show ?thesis
      by (intro frame_unfold validate_fields_frame)
  qed
  from a b show ?thesis by blast
qed

text \<open>
  Two records, the second without the year-to-date field of the first: the field is
  filled in, and \<open>Source File\<close> is what it was.
\<close>

theorem validator_changes_only_ytd_fields_witness:
  "length (fst (validate_and_fix_ytd_values_with py_float_ops
      [[(''Source File'', ''a.pdf''), (''Net YTD'', ''100.00'')], [(''Source File'', ''b.pdf'')]])) = 2
   \<and> map_of (fst (validate_and_fix_ytd_values_with py_float_ops
      [[(''Source File'', ''a.pdf''), (''Net YTD'', ''100.00'')], [(''Source File'', ''b.pdf'')]]) ! 1)
        ''Source File'' = Some ''b.pdf''
   \<and> map_of (fst (validate_and_fix_ytd_values_with py_float_ops
      [[(''Source File'', ''a.pdf''), (''Net YTD'', ''100.00'')], [(''Source File'', ''b.pdf'')]]) ! 1)
        ''Net YTD'' = Some ''100.0''
   \<and> set [''Net YTD''] = set (ytd_fields
      [[(''Source File'', ''a.pdf''), (''Net YTD'', ''100.00'')], [(''Source File'', ''b.pdf'')]])
   \<and> length (fst (validate_fields py_float_ops [''Net YTD'']
      [[(''Source File'', ''a.pdf''), (''Net YTD'', ''100.00'')], [(''Source File'', ''b.pdf'')]])) = 2"
proof -
  let ?d = "[[(''Source File'', ''a.pdf''), (''Net YTD'', ''100.00'')], [(''Source File'', ''b.pdf'')]]"
  have n: "\<not> ends_with_ytd ''Source File''" by code_simp
  have s: "set [''Net YTD''] = set (ytd_fields ?d)" by code_simp
  have y: "map_of (fst (validate_and_fix_ytd_values_with py_float_ops ?d) ! 1) ''Net YTD'' = Some ''100.0''"
    by code_simp
  from validator_changes_only_ytd_fields [of py_float_ops ?d "[''Net YTD'']"] n s y
  show ?thesis by simp
qed

text \<open>
  Claim C4.  The claim's example: \<open>Deductions Medicare Tax YTD\<close> is \<open>100.00\<close> in the
  first record and absent from the second.  The validator fills the second record with
  \<open>str(float('100.00'))\<close>, which is \<open>100.0\<close> and not the \<open>100.00\<close> of the claim.
\<close>

theorem forward_fill_writes_float_text:
  "fst (validate_and_fix_ytd_values
         [[(''Deductions Medicare Tax YTD'', ''100.00'')], []])
     = [[(''Deductions Medicare Tax YTD'', ''100.00'')],
        [(''Deductions Medicare Tax YTD'', ''100.0'')]]"
  by code_simp

text \<open>
  The tolerance test on two batches: from \<open>2.02\<close> to \<open>2.01\<close> the difference
  \<open>2.02 - 0.01\<close> is the double \<open>2.0100000000000002\<close>, above \<open>2.01\<close>, and the
  decrease is reported; from \<open>100.00\<close> to \<open>99.99\<close> the difference is the double
  \<open>99.99\<close> itself and nothing is reported.  A text of fifteen significant digits is read
  and printed back with one decimal.
\<close>

lemma tolerance_test_in_binary_floats:
  "snd (validate_and_fix_ytd_values [[(''Net YTD'', ''2.02'')], [(''Net YTD'', ''2.01'')]])
     = [Warning ''Net YTD'' (PyFloat False ''2'' ''02'') (PyFloat False ''2'' ''01'')
          ''unknown file'']
   \<and> snd (validate_and_fix_ytd_values [[(''Net YTD'', ''100.00'')], [(''Net YTD'', ''99.99'')]])
     = []
   \<and> map_option py_str (py_float ''123456789012345.00'') = Some ''123456789012345.0''"
  by code_simp

section \<open>The form of the amounts the lexer returns\<close>

lemma re_match_Rep:
  "re_match (Rep c lo hi # r) s \<longleftrightarrow>
     (\<exists>k. lo \<le> k \<and> k \<le> length s \<and> (\<forall>h. hi = Some h \<longrightarrow> k \<le> h)
          \<and> list_all (cls_ok c) (take k s) \<and> re_match r (drop k s))"
  by (cases hi) (auto simp: list_ex_iff less_Suc_eq_le simp del: upt_Suc)

lemma re_match_Eos: "re_match (Eos # r) s \<longleftrightarrow> (s = [] \<or> s = [CHR 0x0A]) \<and> re_match r s"
  by simp

lemma digit_not_space: "re_digit c \<Longrightarrow> \<not> py_isspace c"
  by (auto simp: re_digit_def py_isspace_def)

lemma digit_keep: "re_digit c \<Longrightarrow> keep_char c"
  by (auto simp: re_digit_def keep_char_def)

lemma digit_isdigit: "re_digit c \<Longrightarrow> py_isdigit_char c"
  by (simp add: py_isdigit_char_def)

lemma digits_filter_keep: "list_all re_digit ds \<Longrightarrow> filter keep_char ds = ds"
  by (induction ds) (auto simp: digit_keep)

lemma ws_only_space_append:
  "ws_only_space (xs @ ys) \<longleftrightarrow> ws_only_space xs \<and> ws_only_space ys"
  by (simp add: ws_only_space_def)

lemma spaces_filter_keep:
  "list_all py_isspace ws \<Longrightarrow> ws_only_space ws \<Longrightarrow> filter keep_char ws = []"
  by (induction ws) (auto simp: ws_only_space_def keep_char_def)

lemma stars_filter_keep: "list_all (\<lambda>c. c = CHR ''*'') xs \<Longrightarrow> filter keep_char xs = []"
  by (induction xs) (auto simp: keep_char_def)

lemma newline_not_ws_only: "\<not> ws_only_space [CHR 0x0A]"
  by (simp add: ws_only_space_def py_isspace_def)

lemma body_match:
  "list_all body_item body \<Longrightarrow> re_match (body @ [Eos]) s \<Longrightarrow> ws_only_space s \<Longrightarrow>
   list_all re_digit (filter keep_char s) \<and> digit_lo body \<le> length (filter keep_char s)"
proof (induction body arbitrary: s)
  case Nil
  then have "s = [] \<or> s = [CHR 0x0A]" by simp
  with Nil.prems(3) newline_not_ws_only have "s = []" by auto
  then show ?case by simp
next
  case (Cons i body)
  from Cons.prems(1) have bi: "body_item i" and bb: "list_all body_item body" by simp_all
  from bi obtain c lo hi where i: "i = Rep c lo hi" by (cases i) auto
  from Cons.prems(2) obtain k where k: "lo \<le> k" "k \<le> length s"
    and a: "list_all (cls_ok c) (take k s)" and m: "re_match (body @ [Eos]) (drop k s)"
    unfolding i append_Cons re_match_Rep by blast
  have s: "s = take k s @ drop k s" by simp
  from Cons.prems(3) have w1: "ws_only_space (take k s)" and w2: "ws_only_space (drop k s)"
    using ws_only_space_append[of "take k s" "drop k s"] by simp_all
  from Cons.IH[OF bb m w2]
  have ih: "list_all re_digit (filter keep_char (drop k s))"
       "digit_lo body \<le> length (filter keep_char (drop k s))" by simp_all
  have f: "filter keep_char s = filter keep_char (take k s) @ filter keep_char (drop k s)"
    by (subst s) (simp only: filter_append)
  show ?case
  proof (cases c)
    case Digit
    with a have d: "list_all re_digit (take k s)" by (simp add: list_all_iff)
    then have "filter keep_char (take k s) = take k s" by (rule digits_filter_keep)
    with f have f': "filter keep_char s = take k s @ filter keep_char (drop k s)" by simp
    have "length (take k s) = k" using k(2) by simp
    with k(1) ih d show ?thesis unfolding f' i Digit by simp
  next
    case Space
    with a have "list_all py_isspace (take k s)" by (simp add: list_all_iff)
    from this w1 have "filter keep_char (take k s) = []" by (rule spaces_filter_keep)
    with f ih show ?thesis unfolding i Space by simp
  next
    case (Lit x)
    with bi i have x: "x = CHR ''*''" by simp
    with a Lit have "list_all (\<lambda>c. c = CHR ''*'') (take k s)" by (simp add: list_all_iff)
    then have "filter keep_char (take k s) = []" by (rule stars_filter_keep)
    with f ih show ?thesis unfolding i Lit by simp
  qed
qed

lemma amount_match_form:
  assumes "re_match (Rep (Lit CHR ''-'') 0 (Some 1) # body @ [Eos]) p"
    and "list_all body_item body" and "ws_only_space p" and "2 \<le> digit_lo body"
  shows "\<exists>m D. filter keep_char p = m @ D \<and> (m = [] \<or> m = ''-'')
            \<and> list_all re_digit D \<and> 2 \<le> length D"
proof -
  from assms(1) obtain k where k: "k \<le> length p" "k \<le> 1"
    and a: "list_all (cls_ok (Lit CHR ''-'')) (take k p)"
    and m: "re_match (body @ [Eos]) (drop k p)"
    unfolding re_match_Rep by blast
  from assms(3) have w: "ws_only_space (drop k p)"
    using ws_only_space_append[of "take k p" "drop k p"] by simp
  from body_match[OF assms(2) m w] assms(4)
  have d: "list_all re_digit (filter keep_char (drop k p))"
    "2 \<le> length (filter keep_char (drop k p))" by simp_all
  from k(2) consider "k = 0" | "k = 1" by linarith
  then show ?thesis
  proof cases
    case 1
    with d have "filter keep_char p = [] @ filter keep_char p"
      "list_all re_digit (filter keep_char p)" "2 \<le> length (filter keep_char p)" by simp_all
    then show ?thesis by blast
  next
    case 2
    with k(1) obtain c p' where p: "p = c # p'" by (cases p) auto
    with a 2 have c: "c = CHR ''-''" by (simp add: list_all_iff)
    from p 2 have "drop k p = p'" by simp
    with d p c have "filter keep_char p = ''-'' @ filter keep_char p'"
      "list_all re_digit (filter keep_char p')" "2 \<le> length (filter keep_char p')"
      by (simp_all add: keep_char_def)
    then show ?thesis by blast
  qed
qed

lemma py_remove_all: "py_remove CHR ''*'' (py_remove CHR '','' (py_remove CHR '' '' p)) = filter keep_char p"
  by (induction p) (auto simp: py_remove_def keep_char_def)

lemma py_strip_id:
  assumes "s \<noteq> []" and "\<not> py_isspace (hd s)" and "\<not> py_isspace (last s)"
  shows "py_strip s = s"
proof -
  from assms(1,2) have a: "dropWhile py_isspace s = s" by (cases s) simp_all
  from assms(1,3) have "\<not> py_isspace (hd (rev s))" by (simp add: hd_rev)
  with assms(1) have "dropWhile py_isspace (rev s) = rev s"
    by (cases "rev s") simp_all
  with a show ?thesis by (simp add: py_strip_def)
qed

lemma py_rstrip_nl_id: "s \<noteq> [] \<Longrightarrow> last s \<noteq> CHR 0x0A \<Longrightarrow> py_rstrip_nl s = s"
proof -
  assume a: "s \<noteq> []" "last s \<noteq> CHR 0x0A"
  then have "hd (rev s) \<noteq> CHR 0x0A" by (simp add: hd_rev)
  with a(1) have "dropWhile (\<lambda>c. c = CHR 0x0A) (rev s) = rev s" by (cases "rev s") simp_all
  then show ?thesis by (simp add: py_rstrip_nl_def)
qed

lemma digit_not_minus: "re_digit c \<Longrightarrow> c \<noteq> CHR ''-''"
  by (auto simp: re_digit_def)

lemma digit_not_newline: "re_digit c \<Longrightarrow> c \<noteq> CHR 0x0A"
  by (auto simp: re_digit_def)

lemma digit_not_dot: "re_digit c \<Longrightarrow> c \<noteq> CHR ''.''"
  by (auto simp: re_digit_def)

lemma digits_isdigit: "D \<noteq> [] \<Longrightarrow> list_all re_digit D \<Longrightarrow> py_isdigit D"
  by (auto simp: py_isdigit_def list_all_iff digit_isdigit)

lemma clean_amount_form:
  assumes f: "filter keep_char p = m @ D" and m: "m = [] \<or> m = ''-''"
    and d: "list_all re_digit D" and n: "2 \<le> length D"
  shows "clean_amount p = m @ take (length D - 2) D @ ''.'' @ drop (length D - 2) D"
proof -
  from n have ne: "D \<noteq> []" by auto
  from d ne have hdD: "re_digit (hd D)" and lastD: "re_digit (last D)"
    by (simp_all add: list_all_iff)
  define q where "q = m @ D"
  have qne: "q \<noteq> []" using ne by (simp add: q_def)
  have lastq: "last q = last D" using ne by (simp add: q_def)
  have hdq: "hd q = (if m = [] then hd D else CHR ''-'')" using m ne by (auto simp: q_def)
  have nsh: "\<not> py_isspace (hd q)"
    using hdq digit_not_space[OF hdD] by (auto simp: py_isspace_def)
  have nsl: "\<not> py_isspace (last q)" using lastq digit_not_space[OF lastD] by simp
  have st: "py_strip q = q" using qne nsh nsl by (rule py_strip_id)
  have rs: "py_rstrip_nl q = q"
    using qne lastq digit_not_newline[OF lastD] by (simp add: py_rstrip_nl_id)
  have c0: "py_rstrip_nl (py_strip (py_remove CHR ''*'' (py_remove CHR '','' (py_remove CHR '' '' p)))) = q"
    unfolding py_remove_all f q_def[symmetric] st rs ..
  have idg: "py_isdigit D" using ne d by (rule digits_isdigit)
  from m show ?thesis
  proof
    assume e: "m = []"
    then have qD: "q = D" by (simp add: q_def)
    have np: "\<not> prefix ''-'' D" using ne digit_not_minus[OF hdD] by (cases D) auto
    show ?thesis
      unfolding clean_amount_def c0 Let_def qD using ne np n idg e by simp
  next
    assume e: "m = ''-''"
    then have qD: "q = CHR ''-'' # D" by (simp add: q_def)
    show ?thesis
      unfolding clean_amount_def c0 Let_def qD using ne n idg e by simp
  qed
qed

lemma stored_amountI:
  assumes m: "m = [] \<or> m = ''-''" and d: "list_all re_digit ds"
    and f: "list_all re_digit fs" and l: "length fs = 2"
  shows "stored_amount (m @ ds @ ''.'' @ fs)"
proof -
  have tw: "dropWhile re_digit (ds @ ''.'' @ fs) = ''.'' @ fs"
    using d by (simp add: dropWhile_append2 list_all_iff re_digit_def)
  have np: "\<not> prefix ''-'' (ds @ ''.'' @ fs)"
  proof (cases ds)
    case Nil
    then show ?thesis by simp
  next
    case (Cons c cs)
    with d have "re_digit c" by simp
    then have "c \<noteq> CHR ''-''" by (rule digit_not_minus)
    with Cons show ?thesis by simp
  qed
  from m show ?thesis
  proof
    assume "m = []"
    then show ?thesis
      unfolding stored_amount_def Let_def using np tw f l by simp
  next
    assume "m = ''-''"
    then show ?thesis
      unfolding stored_amount_def Let_def using tw f l by simp
  qed
qed

lemma clean_amount_stored:
  assumes "re_match (Rep (Lit CHR ''-'') 0 (Some 1) # body @ [Eos]) p"
    and "list_all body_item body" and "ws_only_space p" and "2 \<le> digit_lo body"
  shows "stored_amount (clean_amount p)"
proof -
  from amount_match_form[OF assms] obtain m D where f: "filter keep_char p = m @ D"
    and m: "m = [] \<or> m = ''-''" and d: "list_all re_digit D" and n: "2 \<le> length D"
    by blast
  have c: "clean_amount p = m @ take (length D - 2) D @ ''.'' @ drop (length D - 2) D"
    using f m d n by (rule clean_amount_form)
  have d1: "list_all re_digit (take (length D - 2) D)"
    using d by (auto simp: list_all_iff dest: in_set_takeD)
  have d2: "list_all re_digit (drop (length D - 2) D)"
    using d by (auto simp: list_all_iff dest: in_set_dropD)
  have l: "length (drop (length D - 2) D) = 2" using n by simp
  show ?thesis unfolding c using m d1 d2 l by (rule stored_amountI)
qed

lemma shape_stored:
  assumes "ws_only_space p"
  shows "re_match re_amount4 p \<Longrightarrow> stored_amount (clean_amount p)"
    and "re_match re_amount3 p \<Longrightarrow> stored_amount (clean_amount p)"
    and "re_match re_amount2 p \<Longrightarrow> stored_amount (clean_amount p)"
    and "re_match re_amount1 p \<Longrightarrow> stored_amount (clean_amount p)"
proof -
  show "re_match re_amount4 p \<Longrightarrow> stored_amount (clean_amount p)"
    using clean_amount_stored[of "[Rep Digit 1 (Some 4), Rep Space 1 (Some 1),
     Rep Digit 3 (Some 3), Rep Space 1 (Some 1), Rep Digit 3 (Some 3), Rep Space 1 (Some 1),
     Rep Digit 2 (Some 2), Rep (Lit CHR ''*'') 0 (Some 1)]" p] assms
    by (simp add: re_amount4_def del: re_match.simps)
  show "re_match re_amount3 p \<Longrightarrow> stored_amount (clean_amount p)"
    using clean_amount_stored[of "[Rep Digit 1 (Some 4), Rep Space 1 (Some 1),
     Rep Digit 3 (Some 3), Rep Space 1 (Some 1),
     Rep Digit 2 (Some 2), Rep (Lit CHR ''*'') 0 (Some 1)]" p] assms
    by (simp add: re_amount3_def del: re_match.simps)
  show "re_match re_amount2 p \<Longrightarrow> stored_amount (clean_amount p)"
    using clean_amount_stored[of "[Rep Digit 1 (Some 4), Rep Space 1 (Some 1),
     Rep Digit 2 (Some 2), Rep (Lit CHR ''*'') 0 (Some 1)]" p] assms
    by (simp add: re_amount2_def del: re_match.simps)
  show "re_match re_amount1 p \<Longrightarrow> stored_amount (clean_amount p)"
    using clean_amount_stored[of "[Rep Digit 2 (Some 2), Rep (Lit CHR ''*'') 0 (Some 1)]" p] assms
    by (simp add: re_amount1_def del: re_match.simps)
qed

lemma split_ws_free: "t \<in> set (py_split_ws s) \<Longrightarrow> ws_free t"
proof (induction s arbitrary: t rule: py_split_ws.induct)
  case 1
  then show ?case by simp
next
  case (2 c cs)
  show ?case
  proof (cases "py_isspace c")
    case True
    with 2 show ?thesis by simp
  next
    case False
    with "2.prems" consider "t = c # takeWhile (\<lambda>x. \<not> py_isspace x) cs"
      | "t \<in> set (py_split_ws (dropWhile (\<lambda>x. \<not> py_isspace x) cs))" by auto
    then show ?thesis
    proof cases
      case 1
      have "list_all (\<lambda>x. \<not> py_isspace x) (takeWhile (\<lambda>x. \<not> py_isspace x) cs)"
        by (auto simp: list_all_iff dest: set_takeWhileD)
      with 1 False show ?thesis by (simp add: ws_free_def)
    next
      case 2
      with False "2.IH"(2) show ?thesis by simp
    qed
  qed
qed

lemma ws_free_only_space: "ws_free t \<Longrightarrow> ws_only_space t"
  by (simp add: ws_free_def ws_only_space_def list_all_iff)

lemma join_ws_only_space:
  "list_all ws_free ts \<Longrightarrow> ws_only_space (py_join ts)"
proof (induction ts rule: py_join.induct)
  case 1
  then show ?case by (simp add: ws_only_space_def)
next
  case (2 t)
  then show ?case by (simp add: ws_free_only_space)
next
  case (3 t u ts)
  then have "ws_only_space t" and "ws_only_space (py_join (u # ts))"
    by (simp_all add: ws_free_only_space)
  moreover have "ws_only_space [CHR '' '']" by (simp add: ws_only_space_def)
  ultimately show ?case
    using ws_only_space_append[of t "CHR '' '' # py_join (u # ts)"]
      ws_only_space_append[of "[CHR '' '']" "py_join (u # ts)"]
    by simp
qed

lemma potential_ws_only_space:
  assumes "list_all ws_free tokens"
  shows "ws_only_space (potential tokens idx k)"
proof -
  have "list_all ws_free (py_slice idx (idx + k) tokens)"
    using assms by (auto simp: py_slice_def list_all_iff dest: in_set_takeD in_set_dropD)
  then show ?thesis unfolding potential_def by (rule join_ws_only_space)
qed

lemma amount_at_stored:
  assumes w: "list_all ws_free tokens" and i: "idx < length tokens"
    and a: "amount_at tokens idx = Some (v, k)"
  shows "stored_amount v"
proof -
  note p = potential_ws_only_space[OF w]
  have t: "ws_only_space (tokens ! idx)"
    using w i by (simp add: list_all_iff ws_free_only_space)
  from a show ?thesis
    unfolding amount_at_def
    using shape_stored(1)[OF p[of idx 4]] shape_stored(2)[OF p[of idx 3]]
      shape_stored(3)[OF p[of idx 2]] shape_stored(4)[OF t]
    by (auto split: if_splits)
qed

lemma amount_at_pos: "amount_at tokens idx = Some (v, k) \<Longrightarrow> 0 < k"
  by (auto simp: amount_at_def split: if_splits)

lemma first_amount_stored:
  "list_all ws_free tokens \<Longrightarrow> first_amount tokens idx = Some (v, e) \<Longrightarrow> stored_amount v"
proof (induction tokens idx rule: first_amount.induct)
  case (1 tokens idx)
  show ?case
  proof (cases "idx < length tokens")
    case False
    with "1.prems"(2) show ?thesis by (simp add: first_amount.simps)
  next
    case True
    show ?thesis
    proof (cases "amount_at tokens idx")
      case None
      with True "1.prems" "1.IH" show ?thesis by (simp add: first_amount.simps[of tokens idx])
    next
      case (Some r)
      obtain a k where r: "r = (a, k)" by (cases r)
      with Some True "1.prems"(2) have "v = a" by (simp add: first_amount.simps[of tokens idx])
      with amount_at_stored[OF "1.prems"(1) True] Some r show ?thesis by simp
    qed
  qed
qed

lemma try_extract_at_stored:
  assumes "list_all ws_free tokens" and "try_extract_at tokens i = Some v"
  shows "stored_amount v"
proof (cases "length tokens \<le> i")
  case True
  with assms(2) show ?thesis by (simp add: try_extract_at_def)
next
  case False
  with assms(2) obtain k where "amount_at tokens i = Some (v, k)"
    by (auto simp: try_extract_at_def)
  with assms(1) False show ?thesis using amount_at_stored[of tokens i v k] by simp
qed

lemma split_ws_all_free: "list_all ws_free (py_split_ws s)"
  by (simp add: list_all_iff split_ws_free)

lemma extract_amounts_stored:
  assumes "extract_amounts_from_line line description = (tp, ytd)"
  shows "(\<forall>v. tp = Some v \<longrightarrow> stored_amount v) \<and> (\<forall>v. ytd = Some v \<longrightarrow> stored_amount v)"
proof -
  define tokens where "tokens = py_split_ws (remainder_after line description)"
  have w: "list_all ws_free tokens" unfolding tokens_def by (rule split_ws_all_free)
  show ?thesis
  proof (cases "first_amount tokens 0")
    case None
    with assms show ?thesis
      by (auto simp: extract_amounts_from_line_def Let_def tokens_def[symmetric] split: if_splits)
  next
    case (Some r)
    obtain a e where r: "r = (a, e)" by (cases r)
    have sa: "stored_amount a" using first_amount_stored[OF w] Some r by simp
    from assms Some r have "(tp, ytd) = (None, None) \<or> (tp = Some a \<and> ytd = try_extract_at tokens e)"
      by (auto simp: extract_amounts_from_line_def Let_def tokens_def[symmetric] split: if_splits)
    with sa try_extract_at_stored[OF w] show ?thesis by auto
  qed
qed



section \<open>The form of the amounts the parsers store\<close>










lemma extract_amounts_opt_stored:
  "opt_stored (fst (extract_amounts_from_line line n))
   \<and> opt_stored (snd (extract_amounts_from_line line n))"
proof -
  obtain tp ytd where e: "extract_amounts_from_line line n = (tp, ytd)"
    by (cases "extract_amounts_from_line line n")
  from extract_amounts_stored[OF e] show ?thesis
    unfolding e by (cases tp; cases ytd) (simp_all add: opt_stored_def)
qed





















section \<open>The social-security rule of the deductions parser\<close>

lemma py_in_find: "py_in sub s \<Longrightarrow> \<exists>p. py_find sub s = Some p"
  by (induction s) auto

lemma name_match_social_security:
  assumes "py_in ''Social Security Tax'' line"
  shows "\<exists>pos. name_match line ''Social Security Tax'' = [(pos, ''Social Security Tax'')]"
proof -
  from assms obtain p where "py_find ''Social Security Tax'' line = Some p"
    using py_in_find by blast
  with assms show ?thesis by (simp add: name_match_def)
qed

lemma name_match_absent: "\<not> py_in n line \<Longrightarrow> name_match line n = []"
  by (simp add: name_match_def)

lemma social_security_in_matches:
  assumes "py_in ''Social Security Tax'' line"
  shows "''Social Security Tax'' \<in> snd ` set (line_matches line)"
proof -
  from assms obtain pos
    where m: "name_match line ''Social Security Tax'' = [(pos, ''Social Security Tax'')]"
    using name_match_social_security by blast
  have "''Social Security Tax'' \<in> set deduction_names" by (simp add: deduction_names_def)
  with m have "(pos, ''Social Security Tax'') \<in> set (line_matches line)"
    unfolding line_matches_def by force
  then show ?thesis by force
qed

lemma social_security_keys_other_label:
  assumes "n \<in> set deduction_names" and "n \<noteq> ''Social Security Tax''"
  shows "''Deductions Social Security Tax'' \<notin> deduction_keys n"
    and "''Deductions Social Security Tax YTD'' \<notin> deduction_keys n"
  using assms by (auto simp: deduction_names_def deduction_keys_def)

lemma store_amounts_frame:
  "k \<notin> deduction_keys n \<Longrightarrow> map_of (store_amounts n amounts d) k = map_of d k"
  by (simp add: store_amounts_def Let_def update_conv' deduction_keys_def)

lemma process_match_frame:
  assumes "k \<notin> deduction_keys n"
  shows "map_of (fst (process_match line n st)) k = map_of (fst st) k"
proof -
  from process_match_cases[of line n st] show ?thesis
  proof
    assume "process_match line n st = st"
    then show ?thesis by simp
  next
    assume "\<exists>amounts flag. process_match line n st = (store_amounts n amounts (fst st), flag)"
    then obtain amounts flag
      where "process_match line n st = (store_amounts n amounts (fst st), flag)" by blast
    then show ?thesis using store_amounts_frame[OF assms] by simp
  qed
qed

lemma social_security_stored_once:
  assumes "map_of (fst st) ''Deductions Social Security Tax YTD'' = Some a"
  shows "process_match line ''Social Security Tax'' st = st"
  using assms by (simp add: process_match_def Let_def has_key_def)

lemma social_security_no_amount:
  assumes "extract_amounts_from_line line ''Social Security Tax'' = (None, None)"
  shows "fst (process_match line ''Social Security Tax'' st) = fst st"
proof -
  have r: "\<And>f h. route_single_amount ''Social Security Tax'' f h (None, None) = (None, None)"
    by (simp add: route_single_amount_def Let_def truthy_def)
  have s: "\<And>d. store_amounts ''Social Security Tax'' (None, None) d = d"
    by (simp add: store_amounts_def Let_def truthy_def)
  show ?thesis using assms r s by (simp add: process_match_def Let_def)
qed

lemma process_match_keeps_ytd:
  assumes n: "n \<in> set deduction_names"
    and p: "map_of (fst st) ''Deductions Social Security Tax'' = None
            \<and> map_of (fst st) ''Deductions Social Security Tax YTD'' = Some a"
  shows "map_of (fst (process_match line n st)) ''Deductions Social Security Tax'' = None
         \<and> map_of (fst (process_match line n st)) ''Deductions Social Security Tax YTD'' = Some a"
proof (cases "n = ''Social Security Tax''")
  case True
  from p have "process_match line ''Social Security Tax'' st = st"
    using social_security_stored_once by blast
  with True p show ?thesis by simp
next
  case False
  note k = social_security_keys_other_label[OF n False]
  show ?thesis
    using p process_match_frame[OF k(1), of line st] process_match_frame[OF k(2), of line st]
    by simp
qed

lemma process_match_keeps_absent:
  assumes n: "n \<in> set deduction_names"
    and e: "n = ''Social Security Tax''
            \<longrightarrow> extract_amounts_from_line line ''Social Security Tax'' = (None, None)"
    and q: "map_of (fst st) ''Deductions Social Security Tax'' = None
            \<and> map_of (fst st) ''Deductions Social Security Tax YTD'' = None"
  shows "map_of (fst (process_match line n st)) ''Deductions Social Security Tax'' = None
         \<and> map_of (fst (process_match line n st)) ''Deductions Social Security Tax YTD'' = None"
proof (cases "n = ''Social Security Tax''")
  case True
  with e have "fst (process_match line ''Social Security Tax'' st) = fst st"
    using social_security_no_amount by blast
  with True q show ?thesis by simp
next
  case False
  note k = social_security_keys_other_label[OF n False]
  show ?thesis
    using q process_match_frame[OF k(1), of line st] process_match_frame[OF k(2), of line st]
    by simp
qed

lemma process_match_stores_ytd:
  assumes e: "extract_amounts_from_line line ''Social Security Tax'' = (Some a, None)"
    and a: "a \<noteq> []" "\<not> prefix ''-'' a"
    and q: "map_of (fst st) ''Deductions Social Security Tax'' = None
            \<and> map_of (fst st) ''Deductions Social Security Tax YTD'' = None"
  shows "map_of (fst (process_match line ''Social Security Tax'' st))
           ''Deductions Social Security Tax'' = None
         \<and> map_of (fst (process_match line ''Social Security Tax'' st))
           ''Deductions Social Security Tax YTD'' = Some a"
proof -
  obtain d f where st: "st = (d, f)" by (cases st)
  from q st have h: "\<not> has_key d ''Deductions Social Security Tax''"
    "\<not> has_key d ''Deductions Social Security Tax YTD''"
    by (simp_all add: has_key_def)
  have "process_match line ''Social Security Tax'' (d, f)
           = (AList.update ''Deductions Social Security Tax YTD'' a d, f)"
    using e a h by (rule social_security_step)
  then show ?thesis using q st by (simp add: update_conv')
qed

lemma fold_process_match_keeps_ytd:
  assumes "\<forall>m\<in>set ms. snd m \<in> set deduction_names"
    and "map_of (fst st) ''Deductions Social Security Tax'' = None
         \<and> map_of (fst st) ''Deductions Social Security Tax YTD'' = Some a"
  shows "map_of (fst (fold (\<lambda>m. process_match line (snd m)) ms st))
           ''Deductions Social Security Tax'' = None
         \<and> map_of (fst (fold (\<lambda>m. process_match line (snd m)) ms st))
           ''Deductions Social Security Tax YTD'' = Some a"
  using assms
proof (induction ms arbitrary: st)
  case Nil
  then show ?case by simp
next
  case (Cons m ms)
  from Cons.prems(1) have n: "snd m \<in> set deduction_names"
    and r: "\<forall>m\<in>set ms. snd m \<in> set deduction_names" by simp_all
  have "map_of (fst (process_match line (snd m) st)) ''Deductions Social Security Tax'' = None
     \<and> map_of (fst (process_match line (snd m) st)) ''Deductions Social Security Tax YTD'' = Some a"
    using n Cons.prems(2) by (rule process_match_keeps_ytd)
  from Cons.IH[OF r this] show ?case by simp
qed

lemma fold_process_match_keeps_absent:
  assumes "\<forall>m\<in>set ms. snd m \<in> set deduction_names"
    and "''Social Security Tax'' \<in> snd ` set ms
         \<longrightarrow> extract_amounts_from_line line ''Social Security Tax'' = (None, None)"
    and "map_of (fst st) ''Deductions Social Security Tax'' = None
         \<and> map_of (fst st) ''Deductions Social Security Tax YTD'' = None"
  shows "map_of (fst (fold (\<lambda>m. process_match line (snd m)) ms st))
           ''Deductions Social Security Tax'' = None
         \<and> map_of (fst (fold (\<lambda>m. process_match line (snd m)) ms st))
           ''Deductions Social Security Tax YTD'' = None"
  using assms
proof (induction ms arbitrary: st)
  case Nil
  then show ?case by simp
next
  case (Cons m ms)
  from Cons.prems(1) have n: "snd m \<in> set deduction_names"
    and r: "\<forall>m\<in>set ms. snd m \<in> set deduction_names" by simp_all
  from Cons.prems(2) have e: "snd m = ''Social Security Tax''
      \<longrightarrow> extract_amounts_from_line line ''Social Security Tax'' = (None, None)"
    and e': "''Social Security Tax'' \<in> snd ` set ms
         \<longrightarrow> extract_amounts_from_line line ''Social Security Tax'' = (None, None)"
    by auto
  have "map_of (fst (process_match line (snd m) st)) ''Deductions Social Security Tax'' = None
     \<and> map_of (fst (process_match line (snd m) st)) ''Deductions Social Security Tax YTD'' = None"
    using n e Cons.prems(3) by (rule process_match_keeps_absent)
  from Cons.IH[OF r e' this] show ?case by simp
qed

lemma fold_process_match_stores_ytd:
  assumes "\<forall>m\<in>set ms. snd m \<in> set deduction_names"
    and "''Social Security Tax'' \<in> snd ` set ms"
    and e: "extract_amounts_from_line line ''Social Security Tax'' = (Some a, None)"
    and a: "a \<noteq> []" "\<not> prefix ''-'' a"
    and "map_of (fst st) ''Deductions Social Security Tax'' = None
         \<and> map_of (fst st) ''Deductions Social Security Tax YTD'' = None"
  shows "map_of (fst (fold (\<lambda>m. process_match line (snd m)) ms st))
           ''Deductions Social Security Tax'' = None
         \<and> map_of (fst (fold (\<lambda>m. process_match line (snd m)) ms st))
           ''Deductions Social Security Tax YTD'' = Some a"
  using assms(1,2,6)
proof (induction ms arbitrary: st)
  case Nil
  then show ?case by simp
next
  case (Cons m ms)
  from Cons.prems(1) have n: "snd m \<in> set deduction_names"
    and r: "\<forall>m\<in>set ms. snd m \<in> set deduction_names" by simp_all
  show ?case
  proof (cases "snd m = ''Social Security Tax''")
    case True
    have "map_of (fst (process_match line ''Social Security Tax'' st))
              ''Deductions Social Security Tax'' = None
         \<and> map_of (fst (process_match line ''Social Security Tax'' st))
              ''Deductions Social Security Tax YTD'' = Some a"
      using e a Cons.prems(3) by (rule process_match_stores_ytd)
    from fold_process_match_keeps_ytd[OF r this] True show ?thesis by simp
  next
    case False
    with Cons.prems(2) have i: "''Social Security Tax'' \<in> snd ` set ms" by auto
    from False have e0: "snd m = ''Social Security Tax''
      \<longrightarrow> extract_amounts_from_line line ''Social Security Tax'' = (None, None)" by simp
    have "map_of (fst (process_match line (snd m) st)) ''Deductions Social Security Tax'' = None
     \<and> map_of (fst (process_match line (snd m) st)) ''Deductions Social Security Tax YTD'' = None"
      using n e0 Cons.prems(3) by (rule process_match_keeps_absent)
    from Cons.IH[OF r i this] show ?thesis by simp
  qed
qed

lemma sorted_matches_names: "\<forall>m\<in>set (sort (line_matches line)). snd m \<in> set deduction_names"
  using line_matches_names by simp

lemma deductions_line_keeps_ytd:
  assumes "map_of (fst st) ''Deductions Social Security Tax'' = None
         \<and> map_of (fst st) ''Deductions Social Security Tax YTD'' = Some a"
  shows "map_of (fst (deductions_line line st)) ''Deductions Social Security Tax'' = None
         \<and> map_of (fst (deductions_line line st)) ''Deductions Social Security Tax YTD'' = Some a"
  unfolding deductions_line_def Let_def
  by (rule fold_process_match_keeps_ytd[OF sorted_matches_names]) (use assms in simp)

lemma deductions_line_keeps_absent:
  assumes e: "py_in ''Social Security Tax'' line
              \<longrightarrow> extract_amounts_from_line line ''Social Security Tax'' = (None, None)"
    and q: "map_of (fst st) ''Deductions Social Security Tax'' = None
         \<and> map_of (fst st) ''Deductions Social Security Tax YTD'' = None"
  shows "map_of (fst (deductions_line line st)) ''Deductions Social Security Tax'' = None
         \<and> map_of (fst (deductions_line line st)) ''Deductions Social Security Tax YTD'' = None"
proof -
  have i: "''Social Security Tax'' \<in> snd ` set (sort (line_matches line))
         \<longrightarrow> extract_amounts_from_line line ''Social Security Tax'' = (None, None)"
  proof
    assume "''Social Security Tax'' \<in> snd ` set (sort (line_matches line))"
    then obtain m where m: "m \<in> set (line_matches line)" "snd m = ''Social Security Tax''"
      by auto
    from line_matches_names[OF m(1)] m(2)
    have "name_match line ''Social Security Tax'' \<noteq> []" by simp
    then have "py_in ''Social Security Tax'' line" using name_match_absent by blast
    with e show "extract_amounts_from_line line ''Social Security Tax'' = (None, None)" by simp
  qed
  show ?thesis
    unfolding deductions_line_def Let_def
    by (rule fold_process_match_keeps_absent[OF sorted_matches_names i]) (use q in simp)
qed

lemma deductions_line_stores_ytd:
  assumes i: "py_in ''Social Security Tax'' line"
    and e: "extract_amounts_from_line line ''Social Security Tax'' = (Some a, None)"
    and a: "a \<noteq> []" "\<not> prefix ''-'' a"
    and q: "map_of (fst st) ''Deductions Social Security Tax'' = None
         \<and> map_of (fst st) ''Deductions Social Security Tax YTD'' = None"
  shows "map_of (fst (deductions_line line st)) ''Deductions Social Security Tax'' = None
         \<and> map_of (fst (deductions_line line st)) ''Deductions Social Security Tax YTD'' = Some a"
proof -
  from i have m: "''Social Security Tax'' \<in> snd ` set (sort (line_matches line))"
    using social_security_in_matches by simp
  show ?thesis
    unfolding deductions_line_def Let_def
    by (rule fold_process_match_stores_ytd[OF sorted_matches_names m e a]) (use q in simp)
qed

lemma fold_deductions_line_keeps_ytd:
  assumes "map_of (fst st) ''Deductions Social Security Tax'' = None
         \<and> map_of (fst st) ''Deductions Social Security Tax YTD'' = Some a"
  shows "map_of (fst (fold deductions_line ls st)) ''Deductions Social Security Tax'' = None
       \<and> map_of (fst (fold deductions_line ls st)) ''Deductions Social Security Tax YTD'' = Some a"
  using assms
proof (induction ls arbitrary: st)
  case Nil
  then show ?case by simp
next
  case (Cons l ls)
  from Cons.IH[OF deductions_line_keeps_ytd[OF Cons.prems]] show ?case by simp
qed

lemma fold_deductions_line_keeps_absent:
  assumes "\<forall>l\<in>set ls. py_in ''Social Security Tax'' l
              \<longrightarrow> extract_amounts_from_line l ''Social Security Tax'' = (None, None)"
    and "map_of (fst st) ''Deductions Social Security Tax'' = None
         \<and> map_of (fst st) ''Deductions Social Security Tax YTD'' = None"
  shows "map_of (fst (fold deductions_line ls st)) ''Deductions Social Security Tax'' = None
       \<and> map_of (fst (fold deductions_line ls st)) ''Deductions Social Security Tax YTD'' = None"
  using assms
proof (induction ls arbitrary: st)
  case Nil
  then show ?case by simp
next
  case (Cons l ls)
  from Cons.prems(1) have e: "py_in ''Social Security Tax'' l
              \<longrightarrow> extract_amounts_from_line l ''Social Security Tax'' = (None, None)"
    and r: "\<forall>l\<in>set ls. py_in ''Social Security Tax'' l
              \<longrightarrow> extract_amounts_from_line l ''Social Security Tax'' = (None, None)"
    by simp_all
  from Cons.IH[OF r deductions_line_keeps_absent[OF e Cons.prems(2)]] show ?case by simp
qed

lemma stored_amount_nonempty: "stored_amount v \<Longrightarrow> v \<noteq> []"
  by (auto simp: stored_amount_def Let_def)

lemma social_security_first_amount:
  assumes s: "py_split_char CHR 0x0A text = pre @ line # post"
    and p: "\<forall>l\<in>set pre. py_in ''Social Security Tax'' l
              \<longrightarrow> extract_amounts_from_line l ''Social Security Tax'' = (None, None)"
    and i: "py_in ''Social Security Tax'' line"
    and e: "extract_amounts_from_line line ''Social Security Tax'' = (Some a, None)"
    and m: "\<not> prefix ''-'' a"
  shows "map_of (parse_deductions_section text) ''Deductions Social Security Tax YTD'' = Some a
       \<and> \<not> has_key (parse_deductions_section text) ''Deductions Social Security Tax''"
proof -
  from extract_amounts_opt_stored[of line "''Social Security Tax''"] e
  have "stored_amount a" by (simp add: opt_stored_def)
  then have ne: "a \<noteq> []" by (rule stored_amount_nonempty)
  define st0 :: "pydict \<times> bool" where "st0 = ([], False)"
  define st1 where "st1 = fold deductions_line pre st0"
  define st2 where "st2 = deductions_line line st1"
  have q0: "map_of (fst st0) ''Deductions Social Security Tax'' = None
         \<and> map_of (fst st0) ''Deductions Social Security Tax YTD'' = None"
    by (simp add: st0_def)
  have q1: "map_of (fst st1) ''Deductions Social Security Tax'' = None
         \<and> map_of (fst st1) ''Deductions Social Security Tax YTD'' = None"
    unfolding st1_def using p q0 by (rule fold_deductions_line_keeps_absent)
  have p2: "map_of (fst st2) ''Deductions Social Security Tax'' = None
         \<and> map_of (fst st2) ''Deductions Social Security Tax YTD'' = Some a"
    unfolding st2_def using i e ne m q1 by (rule deductions_line_stores_ytd)
  have p3: "map_of (fst (fold deductions_line post st2)) ''Deductions Social Security Tax'' = None
     \<and> map_of (fst (fold deductions_line post st2)) ''Deductions Social Security Tax YTD'' = Some a"
    using p2 by (rule fold_deductions_line_keeps_ytd)
  have "parse_deductions_section text = fst (fold deductions_line post st2)"
    unfolding parse_deductions_section_def s st2_def st1_def st0_def by simp
  with p3 show ?thesis by (simp add: has_key_def)
qed

text \<open>
  Claim C6, as stated, fails on a text where an earlier line has already stored a
  \<open>Social Security Tax\<close> field: the label is processed once per document (lines 492-494),
  so the later line, although it carries one amount without a minus, stores nothing.
  After \<open>Social Security Tax -1 00 2 00\<close> the line \<open>Social Security Tax 9 932 40\<close> does not
  give \<open>9932.40\<close>, and the record holds the current-period field of the first line.
\<close>

theorem social_security_later_line_is_ignored:
  "parse_deductions_section
     (''Social Security Tax -1 00 2 00'' @ [CHR 0x0A] @ ''Social Security Tax 9 932 40'')
     = [(''Deductions Social Security Tax'', ''-1.00''),
        (''Deductions Social Security Tax YTD'', ''2.00'')]
   \<and> extract_amounts_from_line ''Social Security Tax 9 932 40'' ''Social Security Tax''
       = (Some ''9932.40'', None)
   \<and> \<not> prefix ''-'' ''9932.40''"
  by code_simp

text \<open>
  Claim C6, amended.  Take any text and any of its lines that contains the label
  \<open>Social Security Tax\<close>, on which exactly one amount is found after the label, without a
  leading minus; suppose that on no earlier line containing the label an amount was found
  (so that no \<open>Social Security Tax\<close> field is stored yet).  Then the record returned by
  \<open>parse_deductions_section\<close> holds that amount under \<open>Deductions Social Security Tax YTD\<close>
  and has no field \<open>Deductions Social Security Tax\<close>, whatever the other lines are.  The
  text \<open>Social Security Tax 9 932 40\<close> gives the year-to-date field \<open>9932.40\<close> and no
  other field.
\<close>

theorem social_security_first_single_positive_is_ytd:
  "(py_split_char CHR 0x0A text = pre @ line # post
      \<and> (\<forall>l\<in>set pre. py_in ''Social Security Tax'' l
            \<longrightarrow> extract_amounts_from_line l ''Social Security Tax'' = (None, None))
      \<and> py_in ''Social Security Tax'' line
      \<and> extract_amounts_from_line line ''Social Security Tax'' = (Some a, None)
      \<and> \<not> prefix ''-'' a
    \<longrightarrow> map_of (parse_deductions_section text) ''Deductions Social Security Tax YTD'' = Some a
        \<and> \<not> has_key (parse_deductions_section text) ''Deductions Social Security Tax'')
   \<and> parse_deductions_section ''Social Security Tax 9 932 40''
       = [(''Deductions Social Security Tax YTD'', ''9932.40'')]"
proof (rule conjI)
  show "parse_deductions_section ''Social Security Tax 9 932 40''
       = [(''Deductions Social Security Tax YTD'', ''9932.40'')]"
    by code_simp
next
  show "py_split_char CHR 0x0A text = pre @ line # post
      \<and> (\<forall>l\<in>set pre. py_in ''Social Security Tax'' l
            \<longrightarrow> extract_amounts_from_line l ''Social Security Tax'' = (None, None))
      \<and> py_in ''Social Security Tax'' line
      \<and> extract_amounts_from_line line ''Social Security Tax'' = (Some a, None)
      \<and> \<not> prefix ''-'' a
    \<longrightarrow> map_of (parse_deductions_section text) ''Deductions Social Security Tax YTD'' = Some a
        \<and> \<not> has_key (parse_deductions_section text) ''Deductions Social Security Tax''"
  proof (intro impI, elim conjE)
    assume "py_split_char CHR 0x0A text = pre @ line # post"
      "\<forall>l\<in>set pre. py_in ''Social Security Tax'' l
            \<longrightarrow> extract_amounts_from_line l ''Social Security Tax'' = (None, None)"
      "py_in ''Social Security Tax'' line"
      "extract_amounts_from_line line ''Social Security Tax'' = (Some a, None)"
      "\<not> prefix ''-'' a"
    then show "map_of (parse_deductions_section text) ''Deductions Social Security Tax YTD'' = Some a
        \<and> \<not> has_key (parse_deductions_section text) ''Deductions Social Security Tax''"
      by (rule social_security_first_amount)
  qed
qed

text \<open>
  A text of four lines: the label alone (no amount, nothing stored), another tax, the
  line of the claim, and a later \<open>Social Security Tax\<close> line with two amounts, which is
  ignored.
\<close>

theorem social_security_first_single_positive_is_ytd_witness:
  "py_split_char CHR 0x0A
     (''Social Security Tax'' @ [CHR 0x0A] @ ''Federal Income Tax -100 00 200 00'' @ [CHR 0x0A]
        @ ''Social Security Tax 9 932 40'' @ [CHR 0x0A] @ ''Social Security Tax -1 00 2 00'')
     = [''Social Security Tax'', ''Federal Income Tax -100 00 200 00'']
         @ ''Social Security Tax 9 932 40'' # [''Social Security Tax -1 00 2 00'']
   \<and> extract_amounts_from_line ''Social Security Tax'' ''Social Security Tax'' = (None, None)
   \<and> \<not> py_in ''Social Security Tax'' ''Federal Income Tax -100 00 200 00''
   \<and> py_in ''Social Security Tax'' ''Social Security Tax 9 932 40''
   \<and> extract_amounts_from_line ''Social Security Tax 9 932 40'' ''Social Security Tax''
       = (Some ''9932.40'', None)
   \<and> \<not> prefix ''-'' ''9932.40''
   \<and> map_of (parse_deductions_section
        (''Social Security Tax'' @ [CHR 0x0A] @ ''Federal Income Tax -100 00 200 00'' @ [CHR 0x0A]
          @ ''Social Security Tax 9 932 40'' @ [CHR 0x0A] @ ''Social Security Tax -1 00 2 00''))
        ''Deductions Social Security Tax YTD'' = Some ''9932.40''
   \<and> \<not> has_key (parse_deductions_section
        (''Social Security Tax'' @ [CHR 0x0A] @ ''Federal Income Tax -100 00 200 00'' @ [CHR 0x0A]
          @ ''Social Security Tax 9 932 40'' @ [CHR 0x0A] @ ''Social Security Tax -1 00 2 00''))
        ''Deductions Social Security Tax''"
proof -
  let ?l0 = "''Social Security Tax''"
  let ?l1 = "''Federal Income Tax -100 00 200 00''"
  let ?l2 = "''Social Security Tax 9 932 40''"
  let ?l3 = "''Social Security Tax -1 00 2 00''"
  let ?t = "?l0 @ [CHR 0x0A] @ ?l1 @ [CHR 0x0A] @ ?l2 @ [CHR 0x0A] @ ?l3"
  have t: "py_split_char CHR 0x0A ?t = [?l0, ?l1] @ ?l2 # [?l3]
      \<and> (\<forall>l\<in>set [?l0, ?l1]. py_in ''Social Security Tax'' l
            \<longrightarrow> extract_amounts_from_line l ''Social Security Tax'' = (None, None))
      \<and> py_in ''Social Security Tax'' ?l2
      \<and> extract_amounts_from_line ?l2 ''Social Security Tax'' = (Some ''9932.40'', None)
      \<and> \<not> prefix ''-'' ''9932.40''
    \<longrightarrow> map_of (parse_deductions_section ?t) ''Deductions Social Security Tax YTD''
          = Some ''9932.40''
        \<and> \<not> has_key (parse_deductions_section ?t) ''Deductions Social Security Tax''"
    by (rule conjunct1 [OF social_security_first_single_positive_is_ytd])
  have s: "py_split_char CHR 0x0A ?t = [?l0, ?l1] @ ?l2 # [?l3]" by code_simp
  have e0: "extract_amounts_from_line ?l0 ''Social Security Tax'' = (None, None)" by code_simp
  have n1: "\<not> py_in ''Social Security Tax'' ?l1" by code_simp
  have i2: "py_in ''Social Security Tax'' ?l2" by code_simp
  have e2: "extract_amounts_from_line ?l2 ''Social Security Tax'' = (Some ''9932.40'', None)"
    by code_simp
  have m: "\<not> prefix ''-'' ''9932.40''" by code_simp
  have b: "\<forall>l\<in>set [?l0, ?l1]. py_in ''Social Security Tax'' l
            \<longrightarrow> extract_amounts_from_line l ''Social Security Tax'' = (None, None)"
    unfolding list.set ball_simps using e0 n1 by (intro conjI impI TrueI) (rule e0, erule notE[OF n1])
  have h: "py_split_char CHR 0x0A ?t = [?l0, ?l1] @ ?l2 # [?l3]
      \<and> (\<forall>l\<in>set [?l0, ?l1]. py_in ''Social Security Tax'' l
            \<longrightarrow> extract_amounts_from_line l ''Social Security Tax'' = (None, None))
      \<and> py_in ''Social Security Tax'' ?l2
      \<and> extract_amounts_from_line ?l2 ''Social Security Tax'' = (Some ''9932.40'', None)
      \<and> \<not> prefix ''-'' ''9932.40''"
    using s b i2 e2 m by (intro conjI)
  note r = mp [OF t h]
  from s e0 n1 i2 e2 m conjunct1 [OF r] conjunct2 [OF r] show ?thesis by (intro conjI)
qed

section \<open>Lexing the rendering of an amount\<close>



































end
